theory Spec2Isabelle
  imports Main
begin

section \<open>CoTaskLib core (Core.hpp): a shallow embedding\<close>

text \<open>
  The embedding follows \<^verbatim>\<open>src/include/CoTaskLib/Core.hpp\<close>. Conventions:
  \<^item> every function that mutates the global backend, or whose callbacks have side effects,
    takes the \<open>world\<close> and returns the new one;
  \<^item> a C++ exception is a value of type \<open>exn\<close>; a \<open>void\<close> function that may throw returns
    \<open>exn option\<close> (\<open>Some e\<close>: \<open>e\<close> was thrown), any other one returns \<open>exn + 'a\<close>;
  \<^item> identifiers (\<^verbatim>\<open>uint64\<close>) are natural numbers: they are only incremented by one per
    registration and compared, and a wrap-around needs \<open>2^64\<close> registrations;
    sorting orders (\<^verbatim>\<open>int32\<close>) are integers: they are only compared, never computed with;
  \<^item> a \<^verbatim>\<open>std::function\<close> that may be empty is a \<open>callback option\<close>. Calling a callback
    appends an event to the trace of the world and then, if the callback is one that throws,
    throws. Callbacks that call back into the backend are outside the model;
  \<^item> the body of a user coroutine is a term of type \<open>coro\<close>: the statements that are still
    to run. The statements are \<^verbatim>\<open>co_return\<close>, \<^verbatim>\<open>throw\<close>, \<^verbatim>\<open>co_await NextFrame()\<close>, a visible
    side effect, \<^verbatim>\<open>Backend::Remove(id)\<close> (what destroying or cancelling a
    \<^verbatim>\<open>ScopedTaskRunner\<close> does), \<^verbatim>\<open>co_await\<close> of a task, \<^verbatim>\<open>WaitForever\<close>, and the bodies of
    \<^verbatim>\<open>All\<close> and \<^verbatim>\<open>Any\<close>. Bodies do not catch exceptions and do not register new top-level
    tasks.
\<close>

subsection \<open>Failures, results, events, callbacks\<close>

text \<open>
  Every \<^verbatim>\<open>throw Error{...}\<close> of the source is a constructor (named after its message);
  \<open>Fault n\<close> is an exception thrown by user code.
\<close>

datatype exn =
    TaskNotCompleted
  | ResultConsumedTwice
  | BackendNotInitialized
  | FinishSourceConsumed
  | FinishSourceEmpty
  | ExecutorNotFound nat
  | ExecutorCannotInsert nat
  | ExecutorInconsistent nat
  | FutureNotReady
  | Fault nat

text \<open>
  Results of tasks. \<open>Void\<close> is what a \<^verbatim>\<open>Task<void>\<close> produces; \<open>VoidResult\<close> is the empty struct
  of that name (line 1833); \<open>TupleV\<close> is a \<^verbatim>\<open>std::tuple\<close>, \<open>OptV\<close> an \<^verbatim>\<open>Optional\<close>.
\<close>

datatype val = Void | VoidResult | IntV int | TupleV "val list" | OptV "val option"

datatype event = FinishCalled nat val | CancelCalled nat | Emitted nat

datatype callback = Callback (cb_tag: nat) (cb_throws: "exn option")

subsection \<open>Promise (lines 1170-1339)\<close>

text \<open>
  \<open>m_pSubAwaiter\<close> is a pointer: it is either null or points to the awaiter on which the
  coroutine frame is suspended (\<open>setSubAwaiter\<close> is only called by \<open>await_suspend\<close>, with
  \<^verbatim>\<open>this\<close>), so it is a flag here and the awaiter it points to is the one of the frame.
  \<open>m_value\<close> is the \<^verbatim>\<open>std::promise\<close>: empty, a value, or an exception.
\<close>

record Promise =
  m_pSubAwaiter :: bool
  m_value :: "(exn + val) option"
  m_isResultSet :: bool
  m_resultConsumed :: bool

definition initial_promise :: Promise where
  "initial_promise =
     \<lparr>m_pSubAwaiter = False, m_value = None, m_isResultSet = False, m_resultConsumed = False\<rparr>"

definition return_value :: "val \<Rightarrow> Promise \<Rightarrow> Promise" where
  "return_value v p = p\<lparr>m_value := Some (Inr v), m_isResultSet := True\<rparr>"

definition unhandled_exception :: "exn \<Rightarrow> Promise \<Rightarrow> Promise" where
  "unhandled_exception e p = p\<lparr>m_value := Some (Inl e), m_isResultSet := True\<rparr>"

text \<open>
  \<open>Promise::value\<close> (lines 1265-1278 and 1314-1326; the two differ in the text of the first
  message only). Reading an empty \<^verbatim>\<open>std::promise\<close> would block; \<open>m_isResultSet\<close> is only set
  together with \<open>m_value\<close>, so that branch is not reached.
\<close>

definition Promise_value :: "Promise \<Rightarrow> (exn + val) \<times> Promise" where
  "Promise_value p =
     (if \<not> m_isResultSet p then (Inl TaskNotCompleted, p)
      else if m_resultConsumed p then (Inl ResultConsumedTwice, p)
      else (case m_value p of
              None \<Rightarrow> (Inl FutureNotReady, p\<lparr>m_resultConsumed := True\<rparr>)
            | Some r \<Rightarrow> (r, p\<lparr>m_resultConsumed := True\<rparr>)))"

subsection \<open>Coroutine bodies, frames and tasks (lines 898-1168)\<close>

text \<open>
  A frame is suspended before the statements \<open>c\<close> (\<open>Suspended c\<close>: at the initial suspend
  point or at a \<^verbatim>\<open>co_await NextFrame()\<close>), suspended inside \<^verbatim>\<open>co_await t\<close> with the
  statements \<open>c\<close> after it (\<open>InAwait t c\<close>), or at its final suspend point (\<open>Final\<close>).
  A frame at its final suspend point is never resumed again (lines 949 and 1025) and is only
  destroyed, so the parameters and local variables that it still holds are not kept in
  \<open>Final\<close>; for \<^verbatim>\<open>All\<close> and \<^verbatim>\<open>Any\<close> these are the argument tasks, which are passed by value.
  \<open>CoAllLoop\<close> and \<open>CoAnyLoop\<close> are the \<^verbatim>\<open>while (true)\<close> loops of \<^verbatim>\<open>All\<close> and \<^verbatim>\<open>Any\<close>,
  entered at the top.
\<close>

datatype coro =
    CoReturn val
  | CoThrow exn
  | CoNextFrame coro
  | CoEmit nat coro
  | CoRemove nat coro
  | CoAwait task coro
  | CoWaitForever
  | CoAll "task list"
  | CoAllLoop "task list"
  | CoAny "task list"
  | CoAnyLoop "task list"
and frame = Suspended coro | InAwait task coro | Final
and task = Task (promise: Promise) (frame: frame)
                (m_concurrentTasksBefore: "task list") (m_concurrentTasksAfter: "task list")

text \<open>\<open>Task::done\<close> (line 1044) through \<open>CoroutineHandleWrapper::done\<close> (line 942).\<close>

definition Task_done :: "task \<Rightarrow> bool" where
  "Task_done t = (frame t = Final)"

text \<open>\<open>Task::value\<close> (line 1050): the promise's \<open>value\<close>, which marks the result consumed.\<close>

definition Task_value :: "task \<Rightarrow> (exn + val) \<times> task" where
  "Task_value t =
     (case Promise_value (promise t) of
        (r, p') \<Rightarrow> (r, Task p' (frame t) (m_concurrentTasksBefore t) (m_concurrentTasksAfter t)))"

text \<open>Calling a coroutine function: \<open>get_return_object\<close> and \<open>initial_suspend\<close>.\<close>

definition coroutine :: "coro \<Rightarrow> task" where
  "coroutine body = Task initial_promise (Suspended body) [] []"

subsection \<open>The backend (lines 50-73 and 281-584)\<close>

record AwaiterEntry =
  awaiter :: task
  finishCallback :: "callback option"
  cancelCallback :: "callback option"

text \<open>\<open>m_awaiterEntries\<close> is a \<^verbatim>\<open>std::map\<close>: an association list in ascending key order.\<close>

record Backend =
  m_nextAwaiterID :: nat
  m_currentAwaiterID :: "nat option"
  m_currentAwaiterRemovalNeeded :: bool
  m_awaiterEntries :: "(nat \<times> AwaiterEntry) list"

record world =
  s_pInstance :: "Backend option"
  trace :: "event list"


fun map_emplace :: "nat \<Rightarrow> 'a \<Rightarrow> (nat \<times> 'a) list \<Rightarrow> (nat \<times> 'a) list" where
  "map_emplace k v [] = [(k, v)]"
| "map_emplace k v ((k', v') # xs) =
     (if k < k' then (k, v) # (k', v') # xs
      else if k = k' then (k', v') # xs
      else (k', v') # map_emplace k v xs)"

definition map_erase :: "nat \<Rightarrow> (nat \<times> 'a) list \<Rightarrow> (nat \<times> 'a) list" where
  "map_erase k xs = filter (\<lambda>kv. fst kv \<noteq> k) xs"

text \<open>Writing through a reference to the mapped value of key \<open>k\<close>.\<close>

definition map_assign :: "nat \<Rightarrow> 'a \<Rightarrow> (nat \<times> 'a) list \<Rightarrow> (nat \<times> 'a) list" where
  "map_assign k v xs = map (\<lambda>kv. if fst kv = k then (k, v) else kv) xs"

definition with_backend :: "(Backend \<Rightarrow> Backend) \<Rightarrow> world \<Rightarrow> world" where
  "with_backend f w =
     (case s_pInstance w of
        None \<Rightarrow> w
      | Some b \<Rightarrow> w\<lparr>s_pInstance := Some (f b)\<rparr>)"

definition with_entries ::
    "((nat \<times> AwaiterEntry) list \<Rightarrow> (nat \<times> AwaiterEntry) list) \<Rightarrow> world \<Rightarrow> world" where
  "with_entries f w = with_backend (\<lambda>b. b\<lparr>m_awaiterEntries := f (m_awaiterEntries b)\<rparr>) w"

definition entries_of :: "world \<Rightarrow> (nat \<times> AwaiterEntry) list" where
  "entries_of w = (case s_pInstance w of None \<Rightarrow> [] | Some b \<Rightarrow> m_awaiterEntries b)"

definition removal_needed :: "world \<Rightarrow> bool" where
  "removal_needed w =
     (case s_pInstance w of None \<Rightarrow> False | Some b \<Rightarrow> m_currentAwaiterRemovalNeeded b)"

definition call_finish :: "callback \<Rightarrow> val \<Rightarrow> world \<Rightarrow> exn option \<times> world" where
  "call_finish cb v w = (cb_throws cb, w\<lparr>trace := trace w @ [FinishCalled (cb_tag cb) v]\<rparr>)"

definition call_cancel :: "callback \<Rightarrow> world \<Rightarrow> exn option \<times> world" where
  "call_cancel cb w = (cb_throws cb, w\<lparr>trace := trace w @ [CancelCalled (cb_tag cb)]\<rparr>)"

text \<open>
  The \<^verbatim>\<open>catch (...)\<close> blocks of lines 420-428, 598-605 and 620-627: call the cancel callback,
  if there is one, and throw the exception again. An exception of the cancel callback itself
  leaves the handler in place of the one caught.
\<close>

definition cancel_and_rethrow :: "callback option \<Rightarrow> exn \<Rightarrow> world \<Rightarrow> exn option \<times> world" where
  "cancel_and_rethrow cancelCb e w =
     (case cancelCb of
        None \<Rightarrow> (Some e, w)
      | Some cb \<Rightarrow>
          (case call_cancel cb w of
             (Some e2, w') \<Rightarrow> (Some e2, w')
           | (None, w') \<Rightarrow> (Some e, w')))"

text \<open>
  The finish callback that \<open>Backend::Add\<close> stores (lines 410-446): it reads the result of
  the awaiter; on a failure it cancels and throws; otherwise it calls the finish callback
  given by the user, if any. The entry of the model keeps the user's two callbacks, which are
  what that closure captures.
\<close>

definition finishCallbackTypeErased ::
    "callback option \<Rightarrow> callback option \<Rightarrow> task \<Rightarrow> world \<Rightarrow> exn option \<times> task \<times> world" where
  "finishCallbackTypeErased finishCb cancelCb a w =
     (case Task_value a of
        (Inl e, a') \<Rightarrow> (case cancel_and_rethrow cancelCb e w of (r, w') \<Rightarrow> (r, a', w'))
      | (Inr v, a') \<Rightarrow>
          (case finishCb of
             None \<Rightarrow> (None, a', w)
           | Some cb \<Rightarrow> (case call_finish cb v w of (r, w') \<Rightarrow> (r, a', w'))))"

text \<open>\<open>AwaiterEntry::callEndCallback\<close> (lines 56-72).\<close>

definition callEndCallback ::
    "AwaiterEntry \<Rightarrow> world \<Rightarrow> exn option \<times> AwaiterEntry \<times> world" where
  "callEndCallback e w =
     (if Task_done (awaiter e) then
        (case finishCallbackTypeErased (finishCallback e) (cancelCallback e) (awaiter e) w of
           (r, a', w') \<Rightarrow> (r, e\<lparr>awaiter := a'\<rparr>, w'))
      else
        (case cancelCallback e of
           None \<Rightarrow> (None, e, w)
         | Some cb \<Rightarrow> (case call_cancel cb w of (r, w') \<Rightarrow> (r, e, w'))))"

text \<open>
  \<open>Backend::Remove\<close> (lines 457-477). When the end callback throws, line 475 is not reached
  and the entry stays in the map.
\<close>

definition Backend_Remove :: "nat \<Rightarrow> world \<Rightarrow> exn option \<times> world" where
  "Backend_Remove i w =
     (case s_pInstance w of
        None \<Rightarrow> (None, w)
      | Some b \<Rightarrow>
          if m_currentAwaiterID b = Some i then
            (None, w\<lparr>s_pInstance := Some (b\<lparr>m_currentAwaiterRemovalNeeded := True\<rparr>)\<rparr>)
          else
            (case map_of (m_awaiterEntries b) i of
               None \<Rightarrow> (None, w)
             | Some e \<Rightarrow>
                 (case callEndCallback e w of
                    (Some ex, e', w') \<Rightarrow> (Some ex, with_entries (map_assign i e') w')
                  | (None, e', w') \<Rightarrow> (None, with_entries (map_erase i) w'))))"

text \<open>\<open>Backend::IsDone\<close> (lines 479-492).\<close>

definition Backend_IsDone :: "nat \<Rightarrow> world \<Rightarrow> exn + bool" where
  "Backend_IsDone i w =
     (case s_pInstance w of
        None \<Rightarrow> Inl BackendNotInitialized
      | Some b \<Rightarrow>
          (case map_of (m_awaiterEntries b) i of
             Some e \<Rightarrow> Inr (Task_done (awaiter e))
           | None \<Rightarrow> Inr (i < m_nextAwaiterID b)))"

text \<open>
  \<open>Backend::Add\<close> (lines 396-455). The awaiter comes from \<^verbatim>\<open>std::make_unique\<close> and is never
  null, so the first check has no branch here.
\<close>

definition Backend_Add ::
    "task \<Rightarrow> callback option \<Rightarrow> callback option \<Rightarrow> world \<Rightarrow> (exn + nat) \<times> world" where
  "Backend_Add a finishCb cancelCb w =
     (case s_pInstance w of
        None \<Rightarrow> (Inl BackendNotInitialized, w)
      | Some b \<Rightarrow>
          (Inr (m_nextAwaiterID b),
           w\<lparr>s_pInstance := Some (b
              \<lparr>m_nextAwaiterID := m_nextAwaiterID b + 1,
               m_awaiterEntries :=
                 map_emplace (m_nextAwaiterID b)
                   \<lparr>awaiter = a, finishCallback = finishCb, cancelCallback = cancelCb\<rparr>
                   (m_awaiterEntries b)\<rparr>)\<rparr>))"

subsection \<open>Results of \<open>All\<close> and \<open>Any\<close> (lines 1837-1875)\<close>

text \<open>
  \<open>VoidResultTypeReplace\<close> (line 1840) replaces the type \<^verbatim>\<open>void\<close> by \<open>VoidResult\<close>; on values it
  replaces what a \<^verbatim>\<open>Task<void>\<close> produces by the value of that struct.
\<close>

definition VoidResultTypeReplace :: "val \<Rightarrow> val" where
  "VoidResultTypeReplace v = (case v of Void \<Rightarrow> VoidResult | _ \<Rightarrow> v)"

definition ConvertVoidResult :: "task \<Rightarrow> exn + val" where
  "ConvertVoidResult t =
     (case fst (Task_value t) of
        Inl e \<Rightarrow> Inl e
      | Inr Void \<Rightarrow> Inr VoidResult
      | Inr v \<Rightarrow> Inr v)"

definition ConvertOptionalVoidResult :: "task \<Rightarrow> exn + val" where
  "ConvertOptionalVoidResult t =
     (if \<not> Task_done t then Inr (OptV None)
      else (case fst (Task_value t) of
              Inl e \<Rightarrow> Inl e
            | Inr Void \<Rightarrow> Inr (OptV (Some VoidResult))
            | Inr v \<Rightarrow> Inr (OptV (Some v))))"

text \<open>
  \<^verbatim>\<open>std::make_tuple(f(args)...)\<close>: the first argument that throws ends the construction. C++
  leaves the order in which the arguments are evaluated open (some compilers go from right to
  left); the model takes them from left to right, and no theorem below depends on which of
  several failures is the one thrown.
\<close>

fun make_tuple :: "(exn + val) list \<Rightarrow> exn + val list" where
  "make_tuple [] = Inr []"
| "make_tuple (Inl e # rs) = Inl e"
| "make_tuple (Inr v # rs) = (case make_tuple rs of Inl e \<Rightarrow> Inl e | Inr vs \<Rightarrow> Inr (v # vs))"

text \<open>\<^verbatim>\<open>co_return std::make_tuple(...)\<close>: the tuple, or the exception that its construction threw.\<close>

definition co_return_tuple :: "(exn + val) list \<Rightarrow> Promise \<Rightarrow> Promise" where
  "co_return_tuple rs p =
     (case make_tuple rs of
        Inl e \<Rightarrow> unhandled_exception e p
      | Inr vs \<Rightarrow> return_value (TupleV vs) p)"

subsection \<open>Resuming (lines 947-960, 1023-1041, 1128-1161, 1207-1224, 1884-1924)\<close>

text \<open>
  \<^item> \<open>Task_resume\<close> is \<open>Task::resume\<close> (and \<open>TaskAwaiter::resume\<close>, which calls it);
  \<^item> \<open>resume_each\<close> is a loop, or a fold expression, that resumes tasks in order;
  \<^item> \<open>CoroutineHandleWrapper_resume\<close> is the function of that name, on the promise and the
    frame of the handle. Its \<open>InAwait\<close> equation has \<open>PromiseBase::resumeSubAwaiter\<close> inlined:
    the sub-awaiter is resumed first, and only when it is done is the pointer cleared and the
    coroutine resumed, at \<open>await_resume\<close>;
  \<^item> \<open>run c p w\<close> is \<^verbatim>\<open>m_handle.resume()\<close> on a frame suspended before the statements \<open>c\<close>:
    the body runs to its next suspend point or to its end. The equation of \<open>CoAwait\<close> is
    \<open>await_ready\<close>, \<open>await_suspend\<close> and \<open>await_resume\<close> of \<open>TaskAwaiter\<close>.
\<close>

fun Task_resume :: "task \<Rightarrow> world \<Rightarrow> task \<times> world"
and resume_each :: "task list \<Rightarrow> world \<Rightarrow> task list \<times> world"
and CoroutineHandleWrapper_resume ::
      "Promise \<Rightarrow> frame \<Rightarrow> world \<Rightarrow> Promise \<times> frame \<times> world"
and run :: "coro \<Rightarrow> Promise \<Rightarrow> world \<Rightarrow> Promise \<times> frame \<times> world"
where
  "Task_resume (Task p f tasksBefore tasksAfter) w =
     (if f = Final then (Task p f tasksBefore tasksAfter, w)
      else
        (case resume_each tasksBefore w of (tasksBefore', w1) \<Rightarrow>
         (case CoroutineHandleWrapper_resume p f w1 of (p', f', w2) \<Rightarrow>
          (case resume_each tasksAfter w2 of (tasksAfter', w3) \<Rightarrow>
             (Task p' f' tasksBefore' tasksAfter', w3)))))"
| "resume_each [] w = ([], w)"
| "resume_each (t # ts) w =
     (case Task_resume t w of (t', w1) \<Rightarrow>
      (case resume_each ts w1 of (ts', w2) \<Rightarrow> (t' # ts', w2)))"
| "CoroutineHandleWrapper_resume p Final w = (p, Final, w)"
| "CoroutineHandleWrapper_resume p (Suspended c) w = run c p w"
| "CoroutineHandleWrapper_resume p (InAwait t c) w =
     (if m_pSubAwaiter p then
        (case Task_resume t w of (t', w') \<Rightarrow>
           if Task_done t' then
             (case fst (Task_value t') of
                Inl e \<Rightarrow> (unhandled_exception e (p\<lparr>m_pSubAwaiter := False\<rparr>), Final, w')
              | Inr v \<Rightarrow> run c (p\<lparr>m_pSubAwaiter := False\<rparr>) w')
           else (p, InAwait t' c, w'))
      else
        (case fst (Task_value t) of
           Inl e \<Rightarrow> (unhandled_exception e p, Final, w)
         | Inr v \<Rightarrow> run c p w))"
| "run (CoReturn v) p w = (return_value v p, Final, w)"
| "run (CoThrow e) p w = (unhandled_exception e p, Final, w)"
| "run (CoNextFrame c) p w = (p, Suspended c, w)"
| "run (CoEmit n c) p w = run c p (w\<lparr>trace := trace w @ [Emitted n]\<rparr>)"
| "run (CoRemove i c) p w =
     (case Backend_Remove i w of
        (Some e, w') \<Rightarrow> (unhandled_exception e p, Final, w')
      | (None, w') \<Rightarrow> run c p w')"
| "run (CoAwait t c) p w =
     (if Task_done t then
        (case fst (Task_value t) of
           Inl e \<Rightarrow> (unhandled_exception e p, Final, w)
         | Inr v \<Rightarrow> run c p w)
      else
        (case Task_resume t w of (t', w') \<Rightarrow>
           if Task_done t' then
             (case fst (Task_value t') of
                Inl e \<Rightarrow> (unhandled_exception e p, Final, w')
              | Inr v \<Rightarrow> run c p w')
           else (p\<lparr>m_pSubAwaiter := True\<rparr>, InAwait t' c, w')))"
| "run CoWaitForever p w = (p, Suspended CoWaitForever, w)"
| "run (CoAll ts) p w =
     (if list_all Task_done ts then (co_return_tuple (map ConvertVoidResult ts) p, Final, w)
      else
        (case resume_each ts w of (ts', w') \<Rightarrow>
           if list_all Task_done ts'
           then (co_return_tuple (map ConvertVoidResult ts') p, Final, w')
           else (p, Suspended (CoAllLoop ts'), w')))"
| "run (CoAllLoop ts) p w =
     (case resume_each ts w of (ts', w') \<Rightarrow>
        if list_all Task_done ts'
        then (co_return_tuple (map ConvertVoidResult ts') p, Final, w')
        else (p, Suspended (CoAllLoop ts'), w'))"
| "run (CoAny ts) p w =
     (if list_ex Task_done ts
      then (co_return_tuple (map ConvertOptionalVoidResult ts) p, Final, w)
      else
        (case resume_each ts w of (ts', w') \<Rightarrow>
           if list_ex Task_done ts'
           then (co_return_tuple (map ConvertOptionalVoidResult ts') p, Final, w')
           else (p, Suspended (CoAnyLoop ts'), w')))"
| "run (CoAnyLoop ts) p w =
     (case resume_each ts w of (ts', w') \<Rightarrow>
        if list_ex Task_done ts'
        then (co_return_tuple (map ConvertOptionalVoidResult ts') p, Final, w')
        else (p, Suspended (CoAnyLoop ts'), w'))"

text \<open>
  \<open>PromiseBase::resumeSubAwaiter\<close> (lines 1207-1224) on its own, and \<^verbatim>\<open>m_handle.resume()\<close>
  from any suspended frame: the two steps of \<open>CoroutineHandleWrapper::resume\<close>.
\<close>

definition resumeSubAwaiter :: "Promise \<Rightarrow> frame \<Rightarrow> world \<Rightarrow> bool \<times> Promise \<times> frame \<times> world" where
  "resumeSubAwaiter p f w =
     (case f of
        InAwait t c \<Rightarrow>
          if \<not> m_pSubAwaiter p then (False, p, f, w)
          else (case Task_resume t w of (t', w') \<Rightarrow>
                  if Task_done t' then (False, p\<lparr>m_pSubAwaiter := False\<rparr>, InAwait t' c, w')
                  else (True, p, InAwait t' c, w'))
      | _ \<Rightarrow> (False, p, f, w))"

definition handle_resume :: "Promise \<Rightarrow> frame \<Rightarrow> world \<Rightarrow> Promise \<times> frame \<times> world" where
  "handle_resume p f w =
     (case f of
        Suspended c \<Rightarrow> run c p w
      | InAwait t c \<Rightarrow>
          (case fst (Task_value t) of
             Inl e \<Rightarrow> (unhandled_exception e p, Final, w)
           | Inr v \<Rightarrow> run c p w)
      | Final \<Rightarrow> (p, Final, w))"

text \<open>\<^verbatim>\<open>All\<close> and \<^verbatim>\<open>Any\<close> (lines 1884-1924) and \<open>Task::with\<close> (lines 1055-1081).\<close>

definition Co_All :: "task list \<Rightarrow> task" where
  "Co_All args = coroutine (CoAll args)"

definition Co_Any :: "task list \<Rightarrow> task" where
  "Co_Any args = coroutine (CoAny args)"

subsection \<open>The tick (lines 348-383)\<close>

text \<open>
  One turn of the loop of \<open>Backend::update\<close>, with the iterator at key \<open>k\<close>. The bodies of the
  model never insert into the map while it is swept, so the keys the iterator visits are the
  keys present at the start, in ascending order, without those erased before the iterator
  reaches them (first \<open>None\<close> branch of the second \<^verbatim>\<open>case\<close>).
\<close>

definition update_step :: "nat \<Rightarrow> exn option \<Rightarrow> world \<Rightarrow> exn option \<times> world" where
  "update_step k exceptionPtr w =
     (case map_of (entries_of w) k of
        None \<Rightarrow> (exceptionPtr, w)
      | Some entry \<Rightarrow>
          (case Task_resume (awaiter entry)
                  (with_backend (\<lambda>b. b\<lparr>m_currentAwaiterID := Some k\<rparr>) w) of
             (a', w1) \<Rightarrow>
               if removal_needed w1 \<or> Task_done a' then
                 (case callEndCallback (entry\<lparr>awaiter := a'\<rparr>) w1 of
                    (thrown, entry', w2) \<Rightarrow>
                      ((case exceptionPtr of None \<Rightarrow> thrown | Some e \<Rightarrow> Some e),
                       with_backend
                         (\<lambda>b. b\<lparr>m_awaiterEntries := map_erase k (m_awaiterEntries b),
                                m_currentAwaiterRemovalNeeded := False\<rparr>) w2))
               else
                 (exceptionPtr, with_entries (map_assign k (entry\<lparr>awaiter := a'\<rparr>)) w1)))"

fun update_loop :: "nat list \<Rightarrow> exn option \<Rightarrow> world \<Rightarrow> exn option \<times> world" where
  "update_loop [] exceptionPtr w = (exceptionPtr, w)"
| "update_loop (k # ks) exceptionPtr w =
     (case update_step k exceptionPtr w of (exceptionPtr', w') \<Rightarrow> update_loop ks exceptionPtr' w')"

text \<open>\<open>Backend::update\<close>: the result \<open>Some e\<close> is the exception thrown again at line 381.\<close>

definition Backend_update :: "world \<Rightarrow> exn option \<times> world" where
  "Backend_update w =
     (case update_loop (map fst (entries_of w)) None w of
        (exceptionPtr, w') \<Rightarrow>
          (exceptionPtr, with_backend (\<lambda>b. b\<lparr>m_currentAwaiterID := None\<rparr>) w'))"

text \<open>\<open>Backend::ManualUpdate\<close> (lines 494-501).\<close>

definition Backend_ManualUpdate :: "world \<Rightarrow> exn option \<times> world" where
  "Backend_ManualUpdate w =
     (case s_pInstance w of
        None \<Rightarrow> (Some BackendNotInitialized, w)
      | Some b \<Rightarrow> Backend_update w)"

subsection \<open>Spawning (lines 586-651) and \<open>ScopedTaskRunner\<close> (lines 665-724)\<close>

definition fnCallFinishCallback ::
    "task \<Rightarrow> callback option \<Rightarrow> callback option \<Rightarrow> world \<Rightarrow> exn option \<times> world" where
  "fnCallFinishCallback a finishCb cancelCb w =
     (case fst (Task_value a) of
        Inl e \<Rightarrow> cancel_and_rethrow cancelCb e w
      | Inr v \<Rightarrow>
          (case finishCb of
             None \<Rightarrow> (None, w)
           | Some cb \<Rightarrow> call_finish cb v w))"

definition ResumeAwaiterOnceAndRegisterIfNotDone ::
    "task \<Rightarrow> callback option \<Rightarrow> callback option \<Rightarrow> world \<Rightarrow> (exn + nat option) \<times> world" where
  "ResumeAwaiterOnceAndRegisterIfNotDone a finishCb cancelCb w =
     (if Task_done a then
        (case fnCallFinishCallback a finishCb cancelCb w of
           (Some e, w') \<Rightarrow> (Inl e, w')
         | (None, w') \<Rightarrow> (Inr None, w'))
      else
        (case Task_resume a w of (a', w1) \<Rightarrow>
           if Task_done a' then
             (case fnCallFinishCallback a' finishCb cancelCb w1 of
                (Some e, w') \<Rightarrow> (Inl e, w')
              | (None, w') \<Rightarrow> (Inr None, w'))
           else
             (case Backend_Add a' finishCb cancelCb w1 of
                (Inl e, w') \<Rightarrow> (Inl e, w')
              | (Inr i, w') \<Rightarrow> (Inr (Some i), w'))))"

record ScopedTaskRunner =
  m_id :: "nat option"

text \<open>The constructor (lines 671-675); \<open>Task::runScoped\<close> (line 1090) is a call of it.\<close>

definition ScopedTaskRunner_new ::
    "task \<Rightarrow> callback option \<Rightarrow> callback option \<Rightarrow> world \<Rightarrow> (exn + ScopedTaskRunner) \<times> world" where
  "ScopedTaskRunner_new t finishCb cancelCb w =
     (case ResumeAwaiterOnceAndRegisterIfNotDone t finishCb cancelCb w of
        (Inl e, w') \<Rightarrow> (Inl e, w')
      | (Inr i, w') \<Rightarrow> (Inr \<lparr>m_id = i\<rparr>, w'))"

definition runScoped ::
    "task \<Rightarrow> callback option \<Rightarrow> callback option \<Rightarrow> world \<Rightarrow> (exn + ScopedTaskRunner) \<times> world" where
  "runScoped t finishCb cancelCb w = ScopedTaskRunner_new t finishCb cancelCb w"

text \<open>
  The destructor (lines 689-695). A destructor is implicitly \<^verbatim>\<open>noexcept\<close>: the result \<open>Some e\<close>,
  which needs a registered entry whose cancel callback throws, is the exception with which
  \<^verbatim>\<open>std::terminate\<close> is called, not one that the program can catch.
\<close>

definition ScopedTaskRunner_destroy :: "ScopedTaskRunner \<Rightarrow> world \<Rightarrow> exn option \<times> world" where
  "ScopedTaskRunner_destroy r w =
     (case m_id r of
        None \<Rightarrow> (None, w)
      | Some i \<Rightarrow> Backend_Remove i w)"


subsection \<open>\<open>TaskFinishSource\<close> (lines 1366-1460)\<close>

record 'a TaskFinishSource =
  m_result :: "'a option"
  tfs_resultConsumed :: bool

definition new_TaskFinishSource :: "'a TaskFinishSource" where
  "new_TaskFinishSource = \<lparr>m_result = None, tfs_resultConsumed = False\<rparr>"

definition hasResult :: "'a TaskFinishSource \<Rightarrow> bool" where
  "hasResult s = (m_result s \<noteq> None)"

definition requestFinish :: "'a \<Rightarrow> 'a TaskFinishSource \<Rightarrow> bool \<times> 'a TaskFinishSource" where
  "requestFinish r s =
     (if tfs_resultConsumed s \<or> hasResult s then (False, s)
      else (True, s\<lparr>m_result := Some r\<rparr>))"

definition result :: "'a TaskFinishSource \<Rightarrow> (exn + 'a) \<times> 'a TaskFinishSource" where
  "result s =
     (if tfs_resultConsumed s then (Inl FinishSourceConsumed, s)
      else (case m_result s of
              None \<Rightarrow> (Inl FinishSourceEmpty, s)
            | Some r \<Rightarrow> (Inr r, s\<lparr>tfs_resultConsumed := True, m_result := None\<rparr>)))"

text \<open>A sequence of calls on one \<open>TaskFinishSource\<close>, and what each call returned.\<close>

datatype 'a tfs_call = RequestFinish 'a | Result

datatype 'a tfs_returned = Returned bool | Value 'a | Threw exn

fun tfs_calls :: "'a tfs_call list \<Rightarrow> 'a TaskFinishSource \<Rightarrow> 'a tfs_returned list" where
  "tfs_calls [] s = []"
| "tfs_calls (RequestFinish r # cs) s =
     (case requestFinish r s of (b, s') \<Rightarrow> Returned b # tfs_calls cs s')"
| "tfs_calls (Result # cs) s =
     (case result s of
        (Inl e, s') \<Rightarrow> Threw e # tfs_calls cs s'
      | (Inr v, s') \<Rightarrow> Value v # tfs_calls cs s')"

text \<open>\<open>TaskFinishSource<void>\<close> (lines 1462-1505): the state is the flag \<open>m_finishRequested\<close>.\<close>

definition requestFinish_void :: "bool \<Rightarrow> bool \<times> bool" where
  "requestFinish_void m_finishRequested = (if m_finishRequested then (False, True) else (True, True))"

subsection \<open>\<open>OrderedExecutor\<close> (lines 111-279)\<close>

record CallerKey =
  key_id :: nat
  sortingOrder :: int

text \<open>\<open>CallerKey::operator<\<close> (lines 134-141).\<close>

definition CallerKey_less :: "CallerKey \<Rightarrow> CallerKey \<Rightarrow> bool" where
  "CallerKey_less a b =
     (if sortingOrder a \<noteq> sortingOrder b then sortingOrder a < sortingOrder b
      else key_id a < key_id b)"

text \<open>
  The callbacks read and change a state \<open>'s\<close> outside the executor: \<open>func\<close> is a step on it,
  \<open>sortingOrderFunc\<close> reads the current sorting order from it. Callbacks that add to or remove
  from the executor while it dispatches are outside the model.
\<close>

record 's Caller =
  func :: "'s \<Rightarrow> 's"
  sortingOrderFunc :: "'s \<Rightarrow> int"

text \<open>
  \<open>m_callers\<close> is a \<^verbatim>\<open>std::map\<close> ordered by \<open>CallerKey_less\<close>: an association list in that order.
  \<open>m_callerKeyByID\<close> is an \<^verbatim>\<open>std::unordered_map\<close>. \<open>m_tempNewSortingOrders\<close> is a work list,
  cleared at the start of \<open>refreshSortingOrder\<close>, and is a local value here.
\<close>

record 's OrderedExecutor =
  m_nextID :: nat
  m_callers :: "(CallerKey \<times> 's Caller) list"
  m_callerKeyByID :: "nat \<Rightarrow> CallerKey option"

definition new_OrderedExecutor :: "'s OrderedExecutor" where
  "new_OrderedExecutor = \<lparr>m_nextID = 1, m_callers = [], m_callerKeyByID = (\<lambda>i. None)\<rparr>"

text \<open>
  \<^verbatim>\<open>std::map\<close> operations under the comparator: two keys are the same key when neither is less
  than the other. \<open>callers_insert\<close> returns the new list and whether the pair was inserted.
\<close>

definition CallerKey_equiv :: "CallerKey \<Rightarrow> CallerKey \<Rightarrow> bool" where
  "CallerKey_equiv a b = (\<not> CallerKey_less a b \<and> \<not> CallerKey_less b a)"

fun callers_insert ::
    "CallerKey \<Rightarrow> 'c \<Rightarrow> (CallerKey \<times> 'c) list \<Rightarrow> (CallerKey \<times> 'c) list \<times> bool" where
  "callers_insert k c [] = ([(k, c)], True)"
| "callers_insert k c ((k', c') # xs) =
     (if CallerKey_less k k' then ((k, c) # (k', c') # xs, True)
      else if CallerKey_less k' k then
        (case callers_insert k c xs of (ys, inserted) \<Rightarrow> ((k', c') # ys, inserted))
      else ((k', c') # xs, False))"

fun callers_find :: "CallerKey \<Rightarrow> (CallerKey \<times> 'c) list \<Rightarrow> 'c option" where
  "callers_find k [] = None"
| "callers_find k ((k', c') # xs) = (if CallerKey_equiv k k' then Some c' else callers_find k xs)"

definition callers_erase :: "CallerKey \<Rightarrow> (CallerKey \<times> 'c) list \<Rightarrow> (CallerKey \<times> 'c) list" where
  "callers_erase k xs = filter (\<lambda>kc. \<not> CallerKey_equiv k (fst kc)) xs"

text \<open>\<open>refreshSortingOrder\<close> (lines 167-199): the first loop, then the second.\<close>

definition changed_sorting_orders :: "'s OrderedExecutor \<Rightarrow> 's \<Rightarrow> (CallerKey \<times> int) list" where
  "changed_sorting_orders ex s =
     map (\<lambda>kc. (fst kc, sortingOrderFunc (snd kc) s))
       (filter (\<lambda>kc. sortingOrderFunc (snd kc) s \<noteq> sortingOrder (fst kc)) (m_callers ex))"

fun reinsert_changed ::
    "(CallerKey \<times> int) list \<Rightarrow> 's OrderedExecutor \<Rightarrow> exn option \<times> 's OrderedExecutor" where
  "reinsert_changed [] ex = (None, ex)"
| "reinsert_changed ((oldKey, newSortingOrder) # rest) ex =
     (case callers_find oldKey (m_callers ex) of
        None \<Rightarrow> (Some (ExecutorNotFound (key_id oldKey)), ex)
      | Some newCaller \<Rightarrow>
          (case callers_insert \<lparr>key_id = key_id oldKey, sortingOrder = newSortingOrder\<rparr> newCaller
                  (callers_erase oldKey (m_callers ex)) of
             (cs, False) \<Rightarrow>
               (Some (ExecutorCannotInsert (key_id oldKey)), ex\<lparr>m_callers := cs\<rparr>)
           | (cs, True) \<Rightarrow>
               reinsert_changed rest
                 (ex\<lparr>m_callers := cs,
                     m_callerKeyByID := (m_callerKeyByID ex)
                       (key_id oldKey \<mapsto> \<lparr>key_id = key_id oldKey, sortingOrder = newSortingOrder\<rparr>)\<rparr>)))"

definition refreshSortingOrder :: "'s OrderedExecutor \<Rightarrow> 's \<Rightarrow> exn option \<times> 's OrderedExecutor" where
  "refreshSortingOrder ex s = reinsert_changed (changed_sorting_orders ex s) ex"

text \<open>\<open>OrderedExecutor::call\<close> (lines 243-251): refresh, then every \<open>func\<close> in the order of the map.\<close>

definition call_all :: "(CallerKey \<times> 's Caller) list \<Rightarrow> 's \<Rightarrow> 's" where
  "call_all cs s = fold (\<lambda>kc. func (snd kc)) cs s"

definition OrderedExecutor_call ::
    "'s OrderedExecutor \<Rightarrow> 's \<Rightarrow> exn option \<times> 's OrderedExecutor \<times> 's" where
  "OrderedExecutor_call ex s =
     (case refreshSortingOrder ex s of
        (Some e, ex') \<Rightarrow> (Some e, ex', s)
      | (None, ex') \<Rightarrow> (None, ex', call_all (m_callers ex') s))"

text \<open>\<open>OrderedExecutor::add\<close> (lines 202-216).\<close>

definition OrderedExecutor_add ::
    "('s \<Rightarrow> 's) \<Rightarrow> ('s \<Rightarrow> int) \<Rightarrow> 's OrderedExecutor \<Rightarrow> 's \<Rightarrow> (exn + nat) \<times> 's OrderedExecutor" where
  "OrderedExecutor_add f orderFunc ex s =
     (case callers_insert \<lparr>key_id = m_nextID ex, sortingOrder = orderFunc s\<rparr>
             \<lparr>func = f, sortingOrderFunc = orderFunc\<rparr> (m_callers ex) of
        (cs, False) \<Rightarrow> (Inl (ExecutorCannotInsert (m_nextID ex)), ex)
      | (cs, True) \<Rightarrow>
          if m_callerKeyByID ex (m_nextID ex) \<noteq> None
          then (Inl (ExecutorInconsistent (m_nextID ex)), ex\<lparr>m_callers := cs\<rparr>)
          else (Inr (m_nextID ex),
                ex\<lparr>m_callers := cs,
                   m_callerKeyByID := (m_callerKeyByID ex)
                     (m_nextID ex \<mapsto> \<lparr>key_id = m_nextID ex, sortingOrder = orderFunc s\<rparr>),
                   m_nextID := m_nextID ex + 1\<rparr>))"

text \<open>\<open>findByID\<close> and \<open>remove\<close> (lines 218-241); the iterator found is the key it points to.\<close>

definition findByID :: "nat \<Rightarrow> 's OrderedExecutor \<Rightarrow> CallerKey option" where
  "findByID i ex =
     (case m_callerKeyByID ex i of
        None \<Rightarrow> None
      | Some k \<Rightarrow> (case callers_find k (m_callers ex) of None \<Rightarrow> None | Some c \<Rightarrow> Some k))"

definition OrderedExecutor_remove :: "nat \<Rightarrow> 's OrderedExecutor \<Rightarrow> exn option \<times> 's OrderedExecutor" where
  "OrderedExecutor_remove i ex =
     (case findByID i ex of
        None \<Rightarrow>
          if m_callerKeyByID ex i \<noteq> None then (Some (ExecutorInconsistent i), ex)
          else (None, ex)
      | Some k \<Rightarrow>
          (None, ex\<lparr>m_callers := callers_erase k (m_callers ex),
                    m_callerKeyByID := (m_callerKeyByID ex)(i := None)\<rparr>))"

text \<open>The callbacks registered in an executor, each with its identifier.\<close>

definition registered :: "'s OrderedExecutor \<Rightarrow> (nat \<times> 's Caller) set" where
  "registered ex = (\<lambda>kc. (key_id (fst kc), snd kc)) ` set (m_callers ex)"

subsection \<open>Invariants\<close>

text \<open>
  What holds of the promise of every task made by calling a coroutine function and resumed
  any number of times: the result is set exactly when the frame is at its final suspend
  point, and then the slot is not empty; before, nothing has been consumed.
\<close>

definition slot_ok :: "Promise \<Rightarrow> frame \<Rightarrow> bool" where
  "slot_ok p f =
     (if f = Final then m_isResultSet p \<and> m_value p \<noteq> None
      else \<not> m_isResultSet p \<and> \<not> m_resultConsumed p)"

definition task_ok :: "task \<Rightarrow> bool" where
  "task_ok t = slot_ok (promise t) (frame t)"

definition fresh_slot :: "Promise \<times> frame \<times> world \<Rightarrow> bool" where
  "fresh_slot r = (slot_ok (fst r) (fst (snd r)) \<and> \<not> m_resultConsumed (fst r))"

text \<open>
  What holds of the registered entries whenever no entry is being resumed: none of their
  tasks is done (an entry whose task ends is erased in the same tick).
\<close>

definition entries_unfinished :: "world \<Rightarrow> bool" where
  "entries_unfinished w = list_all (\<lambda>kc. \<not> Task_done (awaiter (snd kc))) (entries_of w)"

text \<open>
  What holds of an executor that was built by \<open>add\<close>, \<open>remove\<close> and \<open>call\<close> from an empty one:
  the map is in the order of its comparator, every identifier is registered once, was issued
  before, and is indexed under its key.
\<close>

definition executor_ok :: "'s OrderedExecutor \<Rightarrow> bool" where
  "executor_ok ex =
     (sorted_wrt CallerKey_less (map fst (m_callers ex))
      \<and> distinct (map (\<lambda>kc. key_id (fst kc)) (m_callers ex))
      \<and> list_all (\<lambda>kc. key_id (fst kc) < m_nextID ex
                        \<and> m_callerKeyByID ex (key_id (fst kc)) = Some (fst kc)) (m_callers ex)
      \<and> dom (m_callerKeyByID ex) \<subseteq> set (map (\<lambda>kc. key_id (fst kc)) (m_callers ex)))"

subsection \<open>Samples\<close>

text \<open>
  An entry whose task was registered and now waits before the statements \<open>body\<close>, and a world
  with a backend that holds the given entries and is not inside \<open>update\<close>.
\<close>

definition suspended_entry :: "coro \<Rightarrow> callback option \<Rightarrow> callback option \<Rightarrow> AwaiterEntry" where
  "suspended_entry body finishCb cancelCb =
     \<lparr>awaiter = Task initial_promise (Suspended body) [] [],
      finishCallback = finishCb, cancelCallback = cancelCb\<rparr>"

definition idle_world :: "nat \<Rightarrow> (nat \<times> AwaiterEntry) list \<Rightarrow> event list \<Rightarrow> world" where
  "idle_world nextID entries tr =
     \<lparr>s_pInstance = Some \<lparr>m_nextAwaiterID = nextID, m_currentAwaiterID = None,
                           m_currentAwaiterRemovalNeeded = False, m_awaiterEntries = entries\<rparr>,
      trace = tr\<rparr>"

text \<open>
  A sample: the state is a log of the identifiers called and the current sorting order of
  callback 1. Callback 1 logs itself; callback 2 logs itself and sets the sorting order of
  callback 1 to 0; callback 3 logs itself. Callbacks 2 and 3 have the fixed sorting order 5.
\<close>

definition sample_caller :: "nat \<Rightarrow> (nat list \<times> int) Caller" where
  "sample_caller i =
     (if i = 1 then \<lparr>func = (\<lambda>st. (fst st @ [1], snd st)), sortingOrderFunc = snd\<rparr>
      else if i = 2 then \<lparr>func = (\<lambda>st. (fst st @ [2], 0)), sortingOrderFunc = (\<lambda>st. 5)\<rparr>
      else \<lparr>func = (\<lambda>st. (fst st @ [i], snd st)), sortingOrderFunc = (\<lambda>st. 5)\<rparr>)"

definition sample_executor :: "(nat list \<times> int) OrderedExecutor" where
  "sample_executor =
     \<lparr>m_nextID = 4,
      m_callers =
        [(\<lparr>key_id = 2, sortingOrder = 5\<rparr>, sample_caller 2),
         (\<lparr>key_id = 3, sortingOrder = 5\<rparr>, sample_caller 3),
         (\<lparr>key_id = 1, sortingOrder = 10\<rparr>, sample_caller 1)],
      m_callerKeyByID =
        [1 \<mapsto> \<lparr>key_id = 1, sortingOrder = 10\<rparr>,
         2 \<mapsto> \<lparr>key_id = 2, sortingOrder = 5\<rparr>,
         3 \<mapsto> \<lparr>key_id = 3, sortingOrder = 5\<rparr>]\<rparr>"

section \<open>Theorems\<close>

subsection \<open>\<open>TaskFinishSource\<close>: one successful request, one read\<close>

lemma tfs_calls_empty_results:
  "list_all (\<lambda>c. c = Result) pre \<Longrightarrow> \<not> tfs_resultConsumed s \<Longrightarrow> m_result s = None \<Longrightarrow>
   tfs_calls (pre @ rest) s = replicate (length pre) (Threw FinishSourceEmpty) @ tfs_calls rest s"
  by (induction pre) (auto simp: result_def)

lemma tfs_calls_stored_requests:
  "list_all (\<lambda>c. c \<noteq> Result) mid \<Longrightarrow> m_result s = Some x \<Longrightarrow>
   tfs_calls (mid @ rest) s = replicate (length mid) (Returned False) @ tfs_calls rest s"
proof (induction mid)
  case Nil
  then show ?case by simp
next
  case (Cons c mid)
  then obtain r where "c = RequestFinish r" by (cases c) auto
  with Cons show ?case by (simp add: requestFinish_def hasResult_def)
qed

lemma tfs_calls_consumed:
  "tfs_resultConsumed s \<Longrightarrow>
   tfs_calls post s =
     map (\<lambda>c. if c = Result then Threw FinishSourceConsumed else Returned False) post"
proof (induction post)
  case Nil
  then show ?case by simp
next
  case (Cons c post)
  then show ?case by (cases c) (simp_all add: requestFinish_def result_def)
qed

lemma requestFinish_void_once:
  "requestFinish_void False = (True, True) \<and> requestFinish_void True = (False, True)"
  by (simp add: requestFinish_void_def)

text \<open>
  Claim C8. Take any sequence of calls of \<open>requestFinish\<close> and \<open>result\<close> on a new
  \<open>TaskFinishSource\<close>. Such a sequence is a run \<open>pre\<close> of calls of \<open>result\<close>, then possibly a first
  \<open>requestFinish v\<close>, a run \<open>mid\<close> of further calls of \<open>requestFinish\<close>, then possibly a first
  \<open>result\<close> and any calls \<open>post\<close>. The calls of \<open>result\<close> in \<open>pre\<close> throw (no result is stored);
  the first \<open>requestFinish\<close> returns true, and it is the only call that does: those of \<open>mid\<close>
  and of \<open>post\<close> return false; the first \<open>result\<close> after it returns \<open>v\<close>, and every later
  \<open>result\<close> throws.
\<close>

theorem TaskFinishSource_once:
  "list_all (\<lambda>c. c = Result) pre \<and> list_all (\<lambda>c. c \<noteq> Result) mid \<longrightarrow>
     tfs_calls pre new_TaskFinishSource = replicate (length pre) (Threw FinishSourceEmpty)
   \<and> tfs_calls (pre @ RequestFinish v # mid) new_TaskFinishSource =
       replicate (length pre) (Threw FinishSourceEmpty) @ Returned True
         # replicate (length mid) (Returned False)
   \<and> tfs_calls (pre @ RequestFinish v # mid @ Result # post) new_TaskFinishSource =
       replicate (length pre) (Threw FinishSourceEmpty) @ Returned True
         # replicate (length mid) (Returned False) @ Value v
         # map (\<lambda>c. if c = Result then Threw FinishSourceConsumed else Returned False) post"
proof (intro impI, elim conjE)
  let ?s0 = "new_TaskFinishSource :: 'a TaskFinishSource"
  let ?s1 = "?s0\<lparr>m_result := Some v\<rparr>"
  let ?s2 = "?s1\<lparr>tfs_resultConsumed := True, m_result := None\<rparr>"
  assume pre: "list_all (\<lambda>c. c = Result) pre" and mid: "list_all (\<lambda>c. c \<noteq> Result) mid"
  have fresh: "\<not> tfs_resultConsumed ?s0" "m_result ?s0 = None"
    by (simp_all add: new_TaskFinishSource_def)
  have a: "tfs_calls (pre @ rest) ?s0 =
        replicate (length pre) (Threw FinishSourceEmpty) @ tfs_calls rest ?s0" for rest
    using tfs_calls_empty_results[OF pre fresh] .
  have b: "tfs_calls (RequestFinish v # rest) ?s0 = Returned True # tfs_calls rest ?s1" for rest
    by (simp add: requestFinish_def hasResult_def new_TaskFinishSource_def)
  have c: "tfs_calls (mid @ rest) ?s1 =
        replicate (length mid) (Returned False) @ tfs_calls rest ?s1" for rest
    using tfs_calls_stored_requests[OF mid, of ?s1 v] by simp
  have d: "tfs_calls (Result # post) ?s1 = Value v # tfs_calls post ?s2"
    by (simp add: result_def new_TaskFinishSource_def)
  have e: "tfs_calls post ?s2 =
      map (\<lambda>c. if c = Result then Threw FinishSourceConsumed else Returned False) post"
    by (rule tfs_calls_consumed) simp
  have 1: "tfs_calls pre ?s0 = replicate (length pre) (Threw FinishSourceEmpty)"
    using a[of "[]"] by simp
  have 2: "tfs_calls (pre @ RequestFinish v # mid) ?s0 =
       replicate (length pre) (Threw FinishSourceEmpty) @ Returned True
         # replicate (length mid) (Returned False)"
    using a[of "RequestFinish v # mid"] b[of mid] c[of "[]"] by simp
  have 3: "tfs_calls (pre @ RequestFinish v # mid @ Result # post) ?s0 =
       replicate (length pre) (Threw FinishSourceEmpty) @ Returned True
         # replicate (length mid) (Returned False) @ Value v
         # map (\<lambda>c. if c = Result then Threw FinishSourceConsumed else Returned False) post"
    using a[of "RequestFinish v # mid @ Result # post"] b[of "mid @ Result # post"]
      c[of "Result # post"] d e by simp
  from 1 2 3 show "tfs_calls pre ?s0 = replicate (length pre) (Threw FinishSourceEmpty)
   \<and> tfs_calls (pre @ RequestFinish v # mid) ?s0 =
       replicate (length pre) (Threw FinishSourceEmpty) @ Returned True
         # replicate (length mid) (Returned False)
   \<and> tfs_calls (pre @ RequestFinish v # mid @ Result # post) ?s0 =
       replicate (length pre) (Threw FinishSourceEmpty) @ Returned True
         # replicate (length mid) (Returned False) @ Value v
         # map (\<lambda>c. if c = Result then Threw FinishSourceConsumed else Returned False) post"
    by blast
qed

theorem TaskFinishSource_once_witness:
  "tfs_calls [Result, RequestFinish (7::int), RequestFinish 8, Result, Result, RequestFinish 9]
       new_TaskFinishSource =
     [Threw FinishSourceEmpty, Returned True, Returned False, Value 7,
      Threw FinishSourceConsumed, Returned False]"
  using TaskFinishSource_once[of "[Result]" "[RequestFinish 8]" "7::int" "[Result, RequestFinish 9]"]
  by simp

subsection \<open>Without a backend\<close>

text \<open>
  Claim C10. When no backend instance exists, \<open>Backend::Remove\<close> returns without throwing and
  leaves the world as it is (no callback is called, nothing is traced), for every identifier;
  so does the destructor of a \<open>ScopedTaskRunner\<close>, whether it holds an identifier or not;
  \<open>Backend::IsDone\<close> throws.
\<close>

theorem Remove_without_backend:
  "s_pInstance w = None \<longrightarrow>
     Backend_Remove i w = (None, w)
   \<and> ScopedTaskRunner_destroy r w = (None, w)
   \<and> Backend_IsDone i w = Inl BackendNotInitialized"
  by (simp add: Backend_Remove_def ScopedTaskRunner_destroy_def Backend_IsDone_def
           split: option.splits)

theorem Remove_without_backend_witness:
  "Backend_Remove 3 \<lparr>s_pInstance = None, trace = [Emitted 1]\<rparr>
     = (None, \<lparr>s_pInstance = None, trace = [Emitted 1]\<rparr>)
   \<and> ScopedTaskRunner_destroy \<lparr>m_id = Some 3\<rparr> \<lparr>s_pInstance = None, trace = [Emitted 1]\<rparr>
     = (None, \<lparr>s_pInstance = None, trace = [Emitted 1]\<rparr>)
   \<and> Backend_IsDone 3 \<lparr>s_pInstance = None, trace = [Emitted 1]\<rparr> = Inl BackendNotInitialized"
  using Remove_without_backend[of "\<lparr>s_pInstance = None, trace = [Emitted 1]\<rparr>" 3 "\<lparr>m_id = Some 3\<rparr>"]
  by simp

subsection \<open>The completion slot\<close>

lemma fresh_slot_simps:
  "\<not> m_resultConsumed p \<Longrightarrow> fresh_slot (co_return_tuple rs p, Final, w)"
  "\<not> m_resultConsumed p \<Longrightarrow> fresh_slot (return_value v p, Final, w)"
  "\<not> m_resultConsumed p \<Longrightarrow> fresh_slot (unhandled_exception e p, Final, w)"
  "\<not> m_resultConsumed p \<Longrightarrow> \<not> m_isResultSet p \<Longrightarrow> f \<noteq> Final \<Longrightarrow> fresh_slot (p, f, w)"
  "\<not> m_resultConsumed p \<Longrightarrow> \<not> m_isResultSet p \<Longrightarrow> f \<noteq> Final \<Longrightarrow>
     fresh_slot (p\<lparr>m_pSubAwaiter := b\<rparr>, f, w)"
  by (simp_all add: fresh_slot_def slot_ok_def co_return_tuple_def return_value_def
        unhandled_exception_def split: sum.splits)

lemma fresh_slot_run_aux:
  shows "Task_resume t w = Task_resume t w"
    and "resume_each ts w = resume_each ts w"
    and "\<not> m_isResultSet p \<Longrightarrow> \<not> m_resultConsumed p \<Longrightarrow> f \<noteq> Final \<Longrightarrow>
         fresh_slot (CoroutineHandleWrapper_resume p f w)"
    and "\<not> m_isResultSet p \<Longrightarrow> \<not> m_resultConsumed p \<Longrightarrow> fresh_slot (run c p w)"
proof (induction t w and ts w and p f w and c p w
       rule: Task_resume_resume_each_CoroutineHandleWrapper_resume_run.induct)
qed (auto simp: fresh_slot_simps split: prod.split sum.split option.split)

lemma Task_resume_done: "Task_done t \<Longrightarrow> Task_resume t w = (t, w)"
  by (cases t) (simp add: Task_done_def)

lemma task_ok_coroutine: "task_ok (coroutine body)"
  by (simp add: task_ok_def slot_ok_def coroutine_def initial_promise_def)

lemma Task_resume_fields:
  "f \<noteq> Final \<Longrightarrow>
   promise (fst (Task_resume (Task p f bs as) w))
       = fst (CoroutineHandleWrapper_resume p f (snd (resume_each bs w)))
   \<and> frame (fst (Task_resume (Task p f bs as) w))
       = fst (snd (CoroutineHandleWrapper_resume p f (snd (resume_each bs w))))"
  by (simp split: prod.split)

lemma fresh_slot_Task_resume:
  assumes "task_ok t" "\<not> Task_done t"
  shows "task_ok (fst (Task_resume t w))
         \<and> \<not> m_resultConsumed (promise (fst (Task_resume t w)))"
proof (cases t)
  case (Task p f bs as)
  with assms have nf: "f \<noteq> Final" and ns: "\<not> m_isResultSet p" "\<not> m_resultConsumed p"
    by (auto simp: Task_done_def task_ok_def slot_ok_def)
  have "fresh_slot (CoroutineHandleWrapper_resume p f (snd (resume_each bs w)))"
    using fresh_slot_run_aux(3)[OF ns nf] .
  then show ?thesis
    unfolding Task task_ok_def using Task_resume_fields[OF nf, of p bs as w]
    by (simp add: fresh_slot_def)
qed

lemma task_ok_Task_resume: "task_ok t \<Longrightarrow> task_ok (fst (Task_resume t w))"
  by (cases "Task_done t") (simp_all add: Task_resume_done fresh_slot_Task_resume)

lemma Task_value_not_done:
  "task_ok t \<Longrightarrow> \<not> Task_done t \<Longrightarrow> Task_value t = (Inl TaskNotCompleted, t)"
  by (cases t) (simp add: task_ok_def slot_ok_def Task_done_def Task_value_def Promise_value_def)

lemma Task_value_first_second:
  assumes "task_ok t" "Task_done t" "\<not> m_resultConsumed (promise t)"
  shows "\<exists>r t1. m_value (promise t) = Some r \<and> Task_value t = (r, t1)
           \<and> Task_value t1 = (Inl ResultConsumedTwice, t1)
           \<and> m_value (promise t1) = Some r \<and> task_ok t1 \<and> Task_done t1"
proof -
  from assms obtain r where r: "m_value (promise t) = Some r" and s: "m_isResultSet (promise t)"
    by (auto simp: task_ok_def slot_ok_def Task_done_def)
  let ?t1 = "Task ((promise t)\<lparr>m_resultConsumed := True\<rparr>) (frame t)
               (m_concurrentTasksBefore t) (m_concurrentTasksAfter t)"
  have 1: "Task_value t = (r, ?t1)"
    using r s assms(3) by (simp add: Task_value_def Promise_value_def)
  have 2: "Task_value ?t1 = (Inl ResultConsumedTwice, ?t1)"
    using s by (simp add: Task_value_def Promise_value_def)
  have 3: "m_value (promise ?t1) = Some r" using r by simp
  have 4: "task_ok ?t1 \<and> Task_done ?t1"
    using assms(1,2) by (simp add: task_ok_def slot_ok_def Task_done_def)
  from r 1 2 3 4 show ?thesis by blast
qed

text \<open>
  Claim C9. For a well-formed task: \<open>value\<close> before the task is done throws and changes nothing;
  resuming a done task changes nothing, so the slot, once set, stays as it is; when a resume
  brings the task to its end, the slot holds a result \<open>r\<close> (a value or the captured
  exception), the first \<open>value\<close> returns or throws \<open>r\<close>, every later \<open>value\<close> throws
  \<open>ResultConsumedTwice\<close>, and the slot still holds \<open>r\<close>. Well-formedness is kept by \<open>resume\<close>
  and by \<open>value\<close>.
\<close>

theorem value_read_once:
  "task_ok t \<longrightarrow>
      task_ok (fst (Task_resume t w))
    \<and> (Task_done t \<longrightarrow> Task_resume t w = (t, w))
    \<and> (\<not> Task_done t \<longrightarrow> Task_value t = (Inl TaskNotCompleted, t))
    \<and> (\<not> Task_done t \<and> Task_done (fst (Task_resume t w)) \<longrightarrow>
         (\<exists>r t1. m_value (promise (fst (Task_resume t w))) = Some r
                \<and> Task_value (fst (Task_resume t w)) = (r, t1)
                \<and> Task_value t1 = (Inl ResultConsumedTwice, t1)
                \<and> m_value (promise t1) = Some r \<and> task_ok t1 \<and> Task_done t1))"
proof (intro impI conjI)
  assume ok: "task_ok t"
  show "task_ok (fst (Task_resume t w))" using ok by (rule task_ok_Task_resume)
  show "Task_resume t w = (t, w)" if "Task_done t" using that by (rule Task_resume_done)
  show "Task_value t = (Inl TaskNotCompleted, t)" if "\<not> Task_done t"
    using ok that by (rule Task_value_not_done)
  show "\<exists>r t1. m_value (promise (fst (Task_resume t w))) = Some r
                \<and> Task_value (fst (Task_resume t w)) = (r, t1)
                \<and> Task_value t1 = (Inl ResultConsumedTwice, t1)
                \<and> m_value (promise t1) = Some r \<and> task_ok t1 \<and> Task_done t1"
    if "\<not> Task_done t \<and> Task_done (fst (Task_resume t w))"
    using that fresh_slot_Task_resume[OF ok, of w]
    by (intro Task_value_first_second) simp_all
qed

theorem value_read_once_witness:
  "task_ok (coroutine (CoReturn (IntV 5)))
   \<and> Task_value (coroutine (CoReturn (IntV 5)))
       = (Inl TaskNotCompleted, coroutine (CoReturn (IntV 5)))
   \<and> Task_done (fst (Task_resume (coroutine (CoReturn (IntV 5))) \<lparr>s_pInstance = None, trace = []\<rparr>))
   \<and> fst (Task_value (fst (Task_resume (coroutine (CoReturn (IntV 5)))
         \<lparr>s_pInstance = None, trace = []\<rparr>))) = Inr (IntV 5)
   \<and> fst (Task_value (snd (Task_value (fst (Task_resume (coroutine (CoReturn (IntV 5)))
         \<lparr>s_pInstance = None, trace = []\<rparr>))))) = Inl ResultConsumedTwice
   \<and> Task_resume (Task (return_value (IntV 5) initial_promise) Final [] [])
         \<lparr>s_pInstance = None, trace = []\<rparr>
       = (Task (return_value (IntV 5) initial_promise) Final [] [],
          \<lparr>s_pInstance = None, trace = []\<rparr>)"
  using value_read_once[of "coroutine (CoReturn (IntV 5))" "\<lparr>s_pInstance = None, trace = []\<rparr>"]
    value_read_once[of "Task (return_value (IntV 5) initial_promise) Final [] []"
      "\<lparr>s_pInstance = None, trace = []\<rparr>"]
  by (simp add: task_ok_def slot_ok_def coroutine_def initial_promise_def Task_done_def
        Task_value_def Promise_value_def return_value_def)

subsection \<open>Delegated resumption\<close>

text \<open>
  Claim C4. \<open>CoroutineHandleWrapper::resume\<close> is: nothing when done; otherwise
  \<open>resumeSubAwaiter\<close> first, and \<^verbatim>\<open>m_handle.resume()\<close> only if that returned false. So with a
  pending sub-awaiter \<open>t\<close>: if \<open>t\<close> is still unfinished after its resume, the promise and the
  statements \<open>c\<close> of the outer body are as before and the world is the one the sub-awaiter
  left; if \<open>t\<close> is done after its resume, the pointer is cleared and the outer body runs on;
  with no pending sub-awaiter the outer body runs on.
\<close>

theorem resume_sub_awaiter_first:
  "CoroutineHandleWrapper_resume p f w =
      (if f = Final then (p, f, w)
       else (case resumeSubAwaiter p f w of
               (True, p', f', w') \<Rightarrow> (p', f', w')
             | (False, p', f', w') \<Rightarrow> handle_resume p' f' w'))
   \<and> (m_pSubAwaiter p \<and> \<not> Task_done (fst (Task_resume t w)) \<longrightarrow>
        CoroutineHandleWrapper_resume p (InAwait t c) w
          = (p, InAwait (fst (Task_resume t w)) c, snd (Task_resume t w))
        \<and> Task_resume (Task p (InAwait t c) [] []) w
          = (Task p (InAwait (fst (Task_resume t w)) c) [] [], snd (Task_resume t w)))
   \<and> (m_pSubAwaiter p \<and> Task_done (fst (Task_resume t w)) \<longrightarrow>
        CoroutineHandleWrapper_resume p (InAwait t c) w
          = handle_resume (p\<lparr>m_pSubAwaiter := False\<rparr>) (InAwait (fst (Task_resume t w)) c)
              (snd (Task_resume t w)))
   \<and> (\<not> m_pSubAwaiter p \<longrightarrow> CoroutineHandleWrapper_resume p f w = handle_resume p f w)"
proof (intro conjI impI)
  show "CoroutineHandleWrapper_resume p f w =
      (if f = Final then (p, f, w)
       else (case resumeSubAwaiter p f w of
               (True, p', f', w') \<Rightarrow> (p', f', w')
             | (False, p', f', w') \<Rightarrow> handle_resume p' f' w'))"
    by (cases f) (simp_all add: resumeSubAwaiter_def handle_resume_def split: prod.split)
  show "CoroutineHandleWrapper_resume p f w = handle_resume p f w" if "\<not> m_pSubAwaiter p"
    using that by (cases f) (simp_all add: handle_resume_def)
next
  assume a: "m_pSubAwaiter p \<and> \<not> Task_done (fst (Task_resume t w))"
  then show 1: "CoroutineHandleWrapper_resume p (InAwait t c) w
          = (p, InAwait (fst (Task_resume t w)) c, snd (Task_resume t w))"
    by (cases "Task_resume t w") simp
  show "Task_resume (Task p (InAwait t c) [] []) w
          = (Task p (InAwait (fst (Task_resume t w)) c) [] [], snd (Task_resume t w))"
    using 1 by simp
next
  assume "m_pSubAwaiter p \<and> Task_done (fst (Task_resume t w))"
  then show "CoroutineHandleWrapper_resume p (InAwait t c) w
          = handle_resume (p\<lparr>m_pSubAwaiter := False\<rparr>) (InAwait (fst (Task_resume t w)) c)
              (snd (Task_resume t w))"
    by (cases "Task_resume t w") (simp add: handle_resume_def)
qed

theorem resume_sub_awaiter_first_witness:
  "CoroutineHandleWrapper_resume (initial_promise\<lparr>m_pSubAwaiter := True\<rparr>)
       (InAwait (coroutine (CoNextFrame (CoReturn Void))) (CoEmit 9 (CoReturn (IntV 1))))
       \<lparr>s_pInstance = None, trace = []\<rparr>
     = (initial_promise\<lparr>m_pSubAwaiter := True\<rparr>,
        InAwait (Task initial_promise (Suspended (CoReturn Void)) [] [])
          (CoEmit 9 (CoReturn (IntV 1))),
        \<lparr>s_pInstance = None, trace = []\<rparr>)
   \<and> CoroutineHandleWrapper_resume (initial_promise\<lparr>m_pSubAwaiter := True\<rparr>)
       (InAwait (coroutine (CoReturn Void)) (CoEmit 9 (CoReturn (IntV 1))))
       \<lparr>s_pInstance = None, trace = []\<rparr>
     = (return_value (IntV 1) initial_promise, Final,
        \<lparr>s_pInstance = None, trace = [Emitted 9]\<rparr>)
   \<and> CoroutineHandleWrapper_resume initial_promise (Suspended (CoEmit 9 (CoNextFrame (CoReturn Void))))
       \<lparr>s_pInstance = None, trace = []\<rparr>
     = (initial_promise, Suspended (CoReturn Void), \<lparr>s_pInstance = None, trace = [Emitted 9]\<rparr>)"
  using resume_sub_awaiter_first[of initial_promise
          "Suspended (CoEmit 9 (CoNextFrame (CoReturn Void)))"
          "\<lparr>s_pInstance = None, trace = []\<rparr>"
          "coroutine (CoReturn Void)" "CoReturn Void"] resume_sub_awaiter_first[of "initial_promise\<lparr>m_pSubAwaiter := True\<rparr>"
          "InAwait (coroutine (CoNextFrame (CoReturn Void))) (CoEmit 9 (CoReturn (IntV 1)))"
          "\<lparr>s_pInstance = None, trace = []\<rparr>"
          "coroutine (CoNextFrame (CoReturn Void))" "CoEmit 9 (CoReturn (IntV 1))"]
        resume_sub_awaiter_first[of "initial_promise\<lparr>m_pSubAwaiter := True\<rparr>"
          "InAwait (coroutine (CoReturn Void)) (CoEmit 9 (CoReturn (IntV 1)))"
          "\<lparr>s_pInstance = None, trace = []\<rparr>"
          "coroutine (CoReturn Void)" "CoEmit 9 (CoReturn (IntV 1))"]
  by (simp add: coroutine_def initial_promise_def Task_done_def Task_value_def
        Promise_value_def return_value_def handle_resume_def)

subsection \<open>Spawning\<close>

lemma Backend_unchanged_by_callbacks:
  "s_pInstance (snd (call_finish cb v w)) = s_pInstance w"
  "s_pInstance (snd (call_cancel cb w)) = s_pInstance w"
  "s_pInstance (snd (cancel_and_rethrow c e w)) = s_pInstance w"
  "s_pInstance (snd (fnCallFinishCallback a f c w)) = s_pInstance w"
  by (auto simp: call_finish_def call_cancel_def cancel_and_rethrow_def fnCallFinishCallback_def
        split: option.splits sum.splits prod.splits)

lemma spawn_done:
  assumes "Task_resume a w = (a', w1)" "Task_done a'"
  shows "ResumeAwaiterOnceAndRegisterIfNotDone a f c w =
           (case fnCallFinishCallback a' f c w1 of
              (Some e, w') \<Rightarrow> (Inl e, w')
            | (None, w') \<Rightarrow> (Inr None, w'))"
proof (cases "Task_done a")
  case True
  with assms(1) have "a' = a" "w1 = w" by (simp_all add: Task_resume_done)
  with True show ?thesis by (simp add: ResumeAwaiterOnceAndRegisterIfNotDone_def)
next
  case False
  with assms show ?thesis by (simp add: ResumeAwaiterOnceAndRegisterIfNotDone_def)
qed




subsection \<open>Facts about the backend\<close>

lemma call_backend [simp]:
  "s_pInstance (snd (call_finish cb v w)) = s_pInstance w"
  "s_pInstance (snd (call_cancel cb w)) = s_pInstance w"
  by (simp_all add: call_finish_def call_cancel_def)

lemma cancel_and_rethrow_backend [simp]:
  "s_pInstance (snd (cancel_and_rethrow c e w)) = s_pInstance w"
proof (cases c)
  case None
  then show ?thesis by (simp add: cancel_and_rethrow_def)
next
  case (Some cb)
  then show ?thesis
    using call_backend(2)[of cb w]
    by (cases "call_cancel cb w") (auto simp: cancel_and_rethrow_def split: option.splits)
qed

lemma finishCallbackTypeErased_backend [simp]:
  "s_pInstance (snd (snd (finishCallbackTypeErased f c a w))) = s_pInstance w"
proof (cases "Task_value a")
  case (Pair r a')
  show ?thesis
  proof (cases r)
    case (Inl e)
    with Pair show ?thesis
      using cancel_and_rethrow_backend[of c e w]
      by (cases "cancel_and_rethrow c e w") (simp add: finishCallbackTypeErased_def)
  next
    case (Inr v)
    with Pair show ?thesis
    proof (cases f)
      case None
      with Pair Inr show ?thesis by (simp add: finishCallbackTypeErased_def)
    next
      case (Some cb)
      with Pair Inr show ?thesis
        using call_backend(1)[of cb v w]
        by (cases "call_finish cb v w") (simp add: finishCallbackTypeErased_def)
    qed
  qed
qed

lemma callEndCallback_backend [simp]:
  "s_pInstance (snd (snd (callEndCallback e w))) = s_pInstance w"
proof (cases "Task_done (awaiter e)")
  case True
  then show ?thesis
    using finishCallbackTypeErased_backend[of "finishCallback e" "cancelCallback e" "awaiter e" w]
    by (cases "finishCallbackTypeErased (finishCallback e) (cancelCallback e) (awaiter e) w")
       (simp add: callEndCallback_def)
next
  case False
  show ?thesis
  proof (cases "cancelCallback e")
    case None
    with False show ?thesis by (simp add: callEndCallback_def)
  next
    case (Some cb)
    with False show ?thesis
      using call_backend(2)[of cb w]
      by (cases "call_cancel cb w") (simp add: callEndCallback_def)
  qed
qed

lemma removal_needed_cong:
  "s_pInstance w' = s_pInstance w \<Longrightarrow> removal_needed w' = removal_needed w"
  by (simp add: removal_needed_def)

lemma removal_needed_with_entries [simp]:
  "removal_needed (with_entries f w) = removal_needed w"
  by (simp add: removal_needed_def with_entries_def with_backend_def split: option.split)


lemma resume_preserves_aux:
  assumes R: "\<And>w i. Q w \<Longrightarrow> Q (snd (Backend_Remove i w))"
      and T: "\<And>w n. Q w \<Longrightarrow> Q (w\<lparr>trace := trace w @ [Emitted n]\<rparr>)"
  shows "Q w \<Longrightarrow> Q (snd (Task_resume t w))"
    and "Q w \<Longrightarrow> Q (snd (resume_each ts w))"
    and "Q w \<Longrightarrow> Q (snd (snd (CoroutineHandleWrapper_resume p f w)))"
    and "Q w \<Longrightarrow> Q (snd (snd (run c p w)))"
proof (induction t w and ts w and p f w and c p w
       rule: Task_resume_resume_each_CoroutineHandleWrapper_resume_run.induct)
  case (11 i c p w)
  obtain r w' where b: "Backend_Remove i w = (r, w')" by (cases "Backend_Remove i w")
  with R[OF "11.prems", of i] have q: "Q w'" by simp
  show ?case
  proof (cases r)
    case None
    with b q "11.IH"[of r w'] show ?thesis by simp
  next
    case (Some e)
    with b q show ?thesis by simp
  qed
qed (auto simp: T split: prod.split sum.split option.split)


lemma update_step_end:
  assumes "map_of (entries_of w) k = Some entry"
    and "Task_resume (awaiter entry) (with_backend (\<lambda>b. b\<lparr>m_currentAwaiterID := Some k\<rparr>) w)
           = (a', w1)"
    and "removal_needed w1 \<or> Task_done a'"
    and "callEndCallback (entry\<lparr>awaiter := a'\<rparr>) w1 = (thrown, entry', w2)"
  shows "update_step k exceptionPtr w =
           ((case exceptionPtr of None \<Rightarrow> thrown | Some e \<Rightarrow> Some e),
            with_backend
              (\<lambda>b. b\<lparr>m_awaiterEntries := map_erase k (m_awaiterEntries b),
                     m_currentAwaiterRemovalNeeded := False\<rparr>) w2)"
  using assms by (simp add: update_step_def)

lemma erased_world:
  "entries_of (with_backend
      (\<lambda>b. b\<lparr>m_awaiterEntries := map_erase k (m_awaiterEntries b),
             m_currentAwaiterRemovalNeeded := False\<rparr>) w) = map_erase k (entries_of w)"
  "\<not> removal_needed (with_backend
      (\<lambda>b. b\<lparr>m_awaiterEntries := map_erase k (m_awaiterEntries b),
             m_currentAwaiterRemovalNeeded := False\<rparr>) w)"
  "trace (with_backend g w) = trace w"
  by (simp_all add: entries_of_def removal_needed_def with_backend_def map_erase_def
        split: option.split)

lemma entries_of_cong: "s_pInstance w' = s_pInstance w \<Longrightarrow> entries_of w' = entries_of w"
  by (simp add: entries_of_def)

lemmas backend_eval =
  Backend_update_def update_step_def Backend_Remove_def entries_of_def with_backend_def
  with_entries_def removal_needed_def map_erase_def map_assign_def callEndCallback_def
  finishCallbackTypeErased_def cancel_and_rethrow_def call_finish_def call_cancel_def
  Task_done_def Task_value_def Promise_value_def return_value_def unhandled_exception_def
  initial_promise_def suspended_entry_def idle_world_def

subsection \<open>Registered tasks are unfinished\<close>

text \<open>
  Spawning, \<open>Remove\<close>, resuming a task and \<open>update\<close> all keep \<open>entries_unfinished\<close>: every
  entry whose task has ended is erased by the \<open>update\<close> that resumed it, whatever its end
  callback does.
\<close>

lemma entries_unfinished_cong:
  "s_pInstance w' = s_pInstance w \<Longrightarrow> entries_unfinished w' = entries_unfinished w"
  by (simp add: entries_unfinished_def entries_of_def)

lemma entries_of_with_entries:
  "entries_of (with_entries f w) = (case s_pInstance w of None \<Rightarrow> [] | Some b \<Rightarrow> f (m_awaiterEntries b))"
  by (simp add: entries_of_def with_entries_def with_backend_def split: option.split)

lemma entries_unfinished_with_entries:
  assumes "\<And>xs. list_all (\<lambda>kc. \<not> Task_done (awaiter (snd kc))) xs \<Longrightarrow>
             list_all (\<lambda>kc. \<not> Task_done (awaiter (snd kc))) (f xs)"
    and "entries_unfinished w"
  shows "entries_unfinished (with_entries f w)"
proof (cases "s_pInstance w")
  case None
  then show ?thesis by (simp add: entries_unfinished_def entries_of_with_entries)
next
  case (Some b)
  with assms(2) have "list_all (\<lambda>kc. \<not> Task_done (awaiter (snd kc))) (m_awaiterEntries b)"
    by (simp add: entries_unfinished_def entries_of_def)
  from assms(1)[OF this] Some show ?thesis
    by (simp add: entries_unfinished_def entries_of_with_entries)
qed

lemma entries_unfinished_Remove:
  assumes "entries_unfinished w"
  shows "entries_unfinished (snd (Backend_Remove i w))"
proof (cases "s_pInstance w")
  case None
  with assms show ?thesis by (simp add: Backend_Remove_def)
next
  case (Some b)
  from assms Some have u: "list_all (\<lambda>kc. \<not> Task_done (awaiter (snd kc))) (m_awaiterEntries b)"
    by (simp add: entries_unfinished_def entries_of_def)
  show ?thesis
  proof (cases "m_currentAwaiterID b = Some i")
    case True
    with Some u show ?thesis
      by (simp add: Backend_Remove_def entries_unfinished_def entries_of_def)
  next
    case False
    show ?thesis
    proof (cases "map_of (m_awaiterEntries b) i")
      case None
      with Some False assms show ?thesis by (simp add: Backend_Remove_def)
    next
      case (Some e)
      then have "(i, e) \<in> set (m_awaiterEntries b)" by (rule map_of_SomeD)
      with u have nd: "\<not> Task_done (awaiter e)" by (auto simp: list_all_iff)
      obtain r e' w' where c: "callEndCallback e w = (r, e', w')"
        by (cases "callEndCallback e w") auto
      have e': "e' = e" using c nd by (auto simp: callEndCallback_def split: option.splits prod.splits)
      have sp: "s_pInstance w' = Some b"
        using callEndCallback_backend[of e w] c \<open>s_pInstance w = Some b\<close> by simp
      have a: "list_all (\<lambda>kc. \<not> Task_done (awaiter (snd kc))) (map_erase i (m_awaiterEntries b))"
        using u by (auto simp: list_all_iff map_erase_def)
      have b: "list_all (\<lambda>kc. \<not> Task_done (awaiter (snd kc))) (map_assign i e (m_awaiterEntries b))"
        using u nd by (auto simp: list_all_iff map_assign_def)
      show ?thesis
        using \<open>s_pInstance w = Some b\<close> False Some c e' sp a b
        by (cases r) (simp_all add: Backend_Remove_def entries_unfinished_def entries_of_with_entries)
    qed
  qed
qed

lemma entries_unfinished_Task_resume:
  "entries_unfinished w \<Longrightarrow> entries_unfinished (snd (Task_resume t w))"
proof (rule resume_preserves_aux(1)[where Q = entries_unfinished])
  show "entries_unfinished (snd (Backend_Remove i w))" if "entries_unfinished w" for w i
    using that by (rule entries_unfinished_Remove)
  show "entries_unfinished (w\<lparr>trace := trace w @ [Emitted n]\<rparr>)" if "entries_unfinished w" for w n
    using that by (simp add: entries_unfinished_def entries_of_def)
qed

lemma entries_unfinished_update_step:
  assumes "entries_unfinished w"
  shows "entries_unfinished (snd (update_step k exceptionPtr w))"
proof (cases "map_of (entries_of w) k")
  case None
  with assms show ?thesis by (simp add: update_step_def)
next
  case (Some entry)
  let ?w0 = "with_backend (\<lambda>b. b\<lparr>m_currentAwaiterID := Some k\<rparr>) w"
  obtain a' w1 where r: "Task_resume (awaiter entry) ?w0 = (a', w1)"
    by (cases "Task_resume (awaiter entry) ?w0")
  have "entries_of ?w0 = entries_of w"
    by (simp add: entries_of_def with_backend_def split: option.split)
  with assms have "entries_unfinished ?w0" by (simp add: entries_unfinished_def)
  from entries_unfinished_Task_resume[OF this, of "awaiter entry"] r
  have u1: "entries_unfinished w1" by simp
  show ?thesis
  proof (cases "removal_needed w1 \<or> Task_done a'")
    case True
    obtain thrown entry' w2
      where c: "callEndCallback (entry\<lparr>awaiter := a'\<rparr>) w1 = (thrown, entry', w2)"
      by (cases "callEndCallback (entry\<lparr>awaiter := a'\<rparr>) w1") auto
    have "s_pInstance w2 = s_pInstance w1"
      using callEndCallback_backend[of "entry\<lparr>awaiter := a'\<rparr>" w1] c by simp
    then have "entries_of w2 = entries_of w1" by (rule entries_of_cong)
    with u1 have "list_all (\<lambda>kc. \<not> Task_done (awaiter (snd kc))) (map_erase k (entries_of w2))"
      by (auto simp: entries_unfinished_def list_all_iff map_erase_def)
    then show ?thesis
      using update_step_end[OF Some r True c, of exceptionPtr]
      by (simp add: entries_unfinished_def erased_world)
  next
    case False
    then have nd: "\<not> Task_done a'" by simp
    have u: "update_step k exceptionPtr w
               = (exceptionPtr, with_entries (map_assign k (entry\<lparr>awaiter := a'\<rparr>)) w1)"
      using Some r False by (simp add: update_step_def)
    have "list_all (\<lambda>kc. \<not> Task_done (awaiter (snd kc)))
            (map_assign k (entry\<lparr>awaiter := a'\<rparr>) xs)"
      if "list_all (\<lambda>kc. \<not> Task_done (awaiter (snd kc))) xs" for xs
      using that nd by (auto simp: list_all_iff map_assign_def)
    from entries_unfinished_with_entries[OF this u1] show ?thesis
      unfolding u by simp
  qed
qed

lemma entries_unfinished_update_loop:
  "entries_unfinished w \<Longrightarrow> entries_unfinished (snd (update_loop ks exceptionPtr w))"
proof (induction ks arbitrary: w exceptionPtr)
  case Nil
  then show ?case by simp
next
  case (Cons k ks)
  obtain ex' w' where s: "update_step k exceptionPtr w = (ex', w')"
    by (cases "update_step k exceptionPtr w")
  with entries_unfinished_update_step[OF Cons.prems, of k exceptionPtr]
  have "entries_unfinished w'" by simp
  from Cons.IH[OF this, of ex'] s show ?case by simp
qed

lemma entries_unfinished_update:
  assumes "entries_unfinished w"
  shows "entries_unfinished (snd (Backend_update w))"
proof -
  obtain ex w' where l: "update_loop (map fst (entries_of w)) None w = (ex, w')"
    by (cases "update_loop (map fst (entries_of w)) None w")
  with entries_unfinished_update_loop[OF assms, of "map fst (entries_of w)" None]
  have "entries_unfinished w'" by simp
  moreover have "entries_of (with_backend (\<lambda>b. b\<lparr>m_currentAwaiterID := None\<rparr>) w') = entries_of w'"
    by (simp add: entries_of_def with_backend_def split: option.split)
  ultimately show ?thesis using l by (simp add: Backend_update_def entries_unfinished_def)
qed

lemma entries_unfinished_spawn:
  assumes "entries_unfinished w"
  shows "entries_unfinished (snd (ResumeAwaiterOnceAndRegisterIfNotDone a f c w))"
proof -
  have cb: "entries_unfinished (snd (fnCallFinishCallback a' f c w'))"
    if "entries_unfinished w'" for a' w'
    using that entries_unfinished_cong[OF Backend_unchanged_by_callbacks(4)[of a' f c w']]
    by simp
  obtain a' w1 where r: "Task_resume a w = (a', w1)" by (cases "Task_resume a w")
  with entries_unfinished_Task_resume[OF assms, of a] have u1: "entries_unfinished w1" by simp
  show ?thesis
  proof (cases "Task_done a'")
    case True
    obtain x w2 where fc: "fnCallFinishCallback a' f c w1 = (x, w2)"
      by (cases "fnCallFinishCallback a' f c w1")
    with cb[OF u1, of a'] have "entries_unfinished w2" by simp
    with spawn_done[OF r True, of f c] fc show ?thesis by (cases x) simp_all
  next
    case False
    then have nd: "\<not> Task_done a"
      using r by (auto simp: Task_resume_done)
    have emp: "list_all (\<lambda>kc. \<not> Task_done (awaiter (snd kc))) (map_emplace k v xs)"
      if "list_all (\<lambda>kc. \<not> Task_done (awaiter (snd kc))) xs" "\<not> Task_done (awaiter v)"
      for k v xs
      using that by (induction xs) auto
    have add: "entries_unfinished (snd (Backend_Add a' f c w1))"
    proof (cases "s_pInstance w1")
      case None
      with u1 show ?thesis by (simp add: Backend_Add_def)
    next
      case (Some b)
      with u1 have "list_all (\<lambda>kc. \<not> Task_done (awaiter (snd kc))) (m_awaiterEntries b)"
        by (simp add: entries_unfinished_def entries_of_def)
      from emp[OF this, of "\<lparr>awaiter = a', finishCallback = f, cancelCallback = c\<rparr>"
                 "m_nextAwaiterID b"] False Some
      show ?thesis by (simp add: Backend_Add_def entries_unfinished_def entries_of_def)
    qed
    obtain x w2 where ad: "Backend_Add a' f c w1 = (x, w2)" by (cases "Backend_Add a' f c w1")
    with add have "entries_unfinished w2" by simp
    with r False nd ad show ?thesis
      by (cases x) (simp_all add: ResumeAwaiterOnceAndRegisterIfNotDone_def)
  qed
qed

subsection \<open>The sweep of one tick\<close>

lemma update_step_captured:
  "fst (update_step k (Some e) w) = Some e"
  "snd (update_step k ex w) = snd (update_step k None w)"
  by (simp_all add: update_step_def split: option.split prod.split)

lemma update_loop_captured:
  "update_loop ks (Some e) w = (Some e, snd (update_loop ks None w))"
proof (induction ks arbitrary: w e)
  case Nil
  then show ?case by simp
next
  case (Cons k ks)
  obtain ex' w' where n: "update_step k None w = (ex', w')" by (cases "update_step k None w")
  have s: "update_step k (Some e) w = (Some e, w')"
    using update_step_captured(1)[of k e w] update_step_captured(2)[of k "Some e" w] n
    by (cases "update_step k (Some e) w") simp
  show ?case
  proof (cases ex')
    case None
    with n s Cons.IH[of e w'] show ?thesis by simp
  next
    case (Some e')
    with n s Cons.IH[of e w'] Cons.IH[of e' w'] show ?thesis by simp
  qed
qed

lemma entries_of_erase:
  "k \<notin> fst ` set (entries_of (with_backend
      (\<lambda>b. b\<lparr>m_awaiterEntries := map_erase k (m_awaiterEntries b),
             m_currentAwaiterRemovalNeeded := False\<rparr>) w))"
  by (auto simp: entries_of_def with_backend_def map_erase_def split: option.splits)

text \<open>
  Claim C2. In the loop of \<open>update\<close>:
  \<^item> once an exception has been captured, the rest of the sweep changes the world exactly as
    it would with none captured, and the captured one is what the loop ends with: later
    exceptions do not replace it;
  \<^item> \<open>update\<close> throws what the loop ends with;
  \<^item> when the end callback of entry \<open>k\<close> throws \<open>e\<close> (nothing captured before), \<open>k\<close> is erased all
    the same, the sweep goes on over the remaining keys from the world the callback left,
    and the sweep ends with \<open>e\<close>;
  \<^item> when no registered task is done before the tick, none is after it: every entry whose
    task ended in the tick has been erased, whether or not end callbacks threw.
\<close>

theorem update_isolates_callback_faults:
  "update_loop ks (Some e0) w = (Some e0, snd (update_loop ks None w))
   \<and> fst (Backend_update w) = fst (update_loop (map fst (entries_of w)) None w)
   \<and> (map_of (entries_of w) k = Some entry
      \<and> Task_resume (awaiter entry) (with_backend (\<lambda>b. b\<lparr>m_currentAwaiterID := Some k\<rparr>) w)
           = (a', w1)
      \<and> (removal_needed w1 \<or> Task_done a')
      \<and> callEndCallback (entry\<lparr>awaiter := a'\<rparr>) w1 = (Some e, entry', w2)
      \<longrightarrow>
        update_loop (k # ks) None w =
          (Some e,
           snd (update_loop ks None
                  (with_backend
                     (\<lambda>b. b\<lparr>m_awaiterEntries := map_erase k (m_awaiterEntries b),
                            m_currentAwaiterRemovalNeeded := False\<rparr>) w2)))
        \<and> k \<notin> fst ` set (entries_of
                  (with_backend
                     (\<lambda>b. b\<lparr>m_awaiterEntries := map_erase k (m_awaiterEntries b),
                            m_currentAwaiterRemovalNeeded := False\<rparr>) w2)))
   \<and> (entries_unfinished w \<longrightarrow> entries_unfinished (snd (Backend_update w)))"
proof (intro conjI impI)
  show "update_loop ks (Some e0) w = (Some e0, snd (update_loop ks None w))"
    by (rule update_loop_captured)
  show "fst (Backend_update w) = fst (update_loop (map fst (entries_of w)) None w)"
    by (simp add: Backend_update_def split: prod.split)
  show "entries_unfinished (snd (Backend_update w))" if "entries_unfinished w"
    using that by (rule entries_unfinished_update)
next
  assume a: "map_of (entries_of w) k = Some entry
      \<and> Task_resume (awaiter entry) (with_backend (\<lambda>b. b\<lparr>m_currentAwaiterID := Some k\<rparr>) w)
           = (a', w1)
      \<and> (removal_needed w1 \<or> Task_done a')
      \<and> callEndCallback (entry\<lparr>awaiter := a'\<rparr>) w1 = (Some e, entry', w2)"
  let ?w3 = "with_backend
                     (\<lambda>b. b\<lparr>m_awaiterEntries := map_erase k (m_awaiterEntries b),
                            m_currentAwaiterRemovalNeeded := False\<rparr>) w2"
  from a have "update_step k None w = (Some e, ?w3)"
    using update_step_end[of w k entry a' w1 "Some e" entry' w2 None] by simp
  then show "update_loop (k # ks) None w = (Some e, snd (update_loop ks None ?w3))"
    by (simp add: update_loop_captured)
  show "k \<notin> fst ` set (entries_of ?w3)" by (rule entries_of_erase)
qed

text \<open>
  Three entries: the finish callback of entry 1 throws \<open>Fault 101\<close>; the task of entry 2
  fails with \<open>Fault 7\<close>, which its end callback throws after the cancel callback; entry 3
  waits one more frame. Both finished entries are erased, entry 3 was resumed, and \<open>update\<close>
  throws \<open>Fault 101\<close>.
\<close>

theorem update_isolates_callback_faults_witness:
  "Backend_update
       (idle_world 4
          [(1, suspended_entry (CoReturn (IntV 1)) (Some (Callback 11 (Some (Fault 101)))) None),
           (2, suspended_entry (CoThrow (Fault 7)) (Some (Callback 21 None))
                 (Some (Callback 22 None))),
           (3, suspended_entry (CoNextFrame (CoReturn Void)) None None)] [])
     = (Some (Fault 101),
        idle_world 4 [(3, suspended_entry (CoReturn Void) None None)]
          [FinishCalled 11 (IntV 1), CancelCalled 22])"
  using update_isolates_callback_faults[where
      ks = "[2, 3]" and ?e0.0 = "Fault 0" and k = 1 and e = "Fault 101"
      and w = "idle_world 4
          [(1, suspended_entry (CoReturn (IntV 1)) (Some (Callback 11 (Some (Fault 101)))) None),
           (2, suspended_entry (CoThrow (Fault 7)) (Some (Callback 21 None))
                 (Some (Callback 22 None))),
           (3, suspended_entry (CoNextFrame (CoReturn Void)) None None)] []"
      and entry = "suspended_entry (CoReturn (IntV 1)) (Some (Callback 11 (Some (Fault 101)))) None"
      and a' = "Task (return_value (IntV 1) initial_promise) Final [] []"
      and ?w1.0 = "\<lparr>s_pInstance = Some \<lparr>m_nextAwaiterID = 4, m_currentAwaiterID = Some 1,
                m_currentAwaiterRemovalNeeded = False,
                m_awaiterEntries =
          [(1, suspended_entry (CoReturn (IntV 1)) (Some (Callback 11 (Some (Fault 101)))) None),
           (2, suspended_entry (CoThrow (Fault 7)) (Some (Callback 21 None))
                 (Some (Callback 22 None))),
           (3, suspended_entry (CoNextFrame (CoReturn Void)) None None)]\<rparr>, trace = []\<rparr>"
      and entry' = "\<lparr>awaiter = Task ((return_value (IntV 1) initial_promise)
                        \<lparr>m_resultConsumed := True\<rparr>) Final [] [],
                     finishCallback = Some (Callback 11 (Some (Fault 101))),
                     cancelCallback = None\<rparr>"
      and ?w2.0 = "\<lparr>s_pInstance = Some \<lparr>m_nextAwaiterID = 4, m_currentAwaiterID = Some 1,
                m_currentAwaiterRemovalNeeded = False,
                m_awaiterEntries =
          [(1, suspended_entry (CoReturn (IntV 1)) (Some (Callback 11 (Some (Fault 101)))) None),
           (2, suspended_entry (CoThrow (Fault 7)) (Some (Callback 21 None))
                 (Some (Callback 22 None))),
           (3, suspended_entry (CoNextFrame (CoReturn Void)) None None)]\<rparr>,
           trace = [FinishCalled 11 (IntV 1)]\<rparr>"]
  by (simp add: backend_eval entries_unfinished_def)

subsection \<open>Removing an entry\<close>





subsection \<open>Facts about \<open>All\<close> and \<open>Any\<close>\<close>

lemma make_tuple_map_Inr: "make_tuple (map Inr vs) = Inr vs"
  by (induction vs) simp_all

lemma make_tuple_Inr_D: "make_tuple rs = Inr vs \<Longrightarrow> rs = map Inr vs"
proof (induction rs arbitrary: vs)
  case Nil
  then show ?case by auto
next
  case (Cons r rs)
  show ?case
  proof (cases r)
    case (Inl e)
    with Cons.prems show ?thesis by simp
  next
    case (Inr v)
    with Cons.prems obtain vs' where v: "make_tuple rs = Inr vs'" "vs = v # vs'"
      by (cases "make_tuple rs") auto
    with Cons.IH[of vs'] Inr show ?thesis by simp
  qed
qed

lemma make_tuple_Inr: "make_tuple rs = Inr vs \<longleftrightarrow> rs = map Inr vs"
  using make_tuple_Inr_D make_tuple_map_Inr by blast

lemma make_tuple_Inl:
  "make_tuple rs = Inl e \<Longrightarrow> Inl e \<in> set rs"
  by (induction rs) (auto split: sum.splits elim: make_tuple.elims)

lemma make_tuple_fails: "Inl e \<in> set rs \<Longrightarrow> \<exists>e'. make_tuple rs = Inl e'"
proof (induction rs)
  case Nil
  then show ?case by simp
next
  case (Cons r rs)
  then show ?case by (cases r) (auto split: sum.splits)
qed

lemma ConvertVoidResult_eq:
  "ConvertVoidResult t =
     (case fst (Task_value t) of Inl e \<Rightarrow> Inl e | Inr v \<Rightarrow> Inr (VoidResultTypeReplace v))"
  by (simp add: ConvertVoidResult_def VoidResultTypeReplace_def split: sum.split val.split)

lemma resume_each_done: "list_all Task_done ts \<Longrightarrow> resume_each ts w = (ts, w)"
  by (induction ts) (simp_all add: Task_resume_done)

lemma resume_each_append:
  "resume_each (xs @ ys) w =
     (case resume_each xs w of (xs', w1) \<Rightarrow>
      (case resume_each ys w1 of (ys', w2) \<Rightarrow> (xs' @ ys', w2)))"
  by (induction xs arbitrary: w) (simp_all split: prod.split)

lemma resume_each_length: "length (fst (resume_each ts w)) = length ts"
proof (induction ts arbitrary: w)
  case Nil
  then show ?case by simp
next
  case (Cons t ts)
  obtain t' w1 where a: "Task_resume t w = (t', w1)" by (cases "Task_resume t w")
  obtain ts' w2 where b: "resume_each ts w1 = (ts', w2)" by (cases "resume_each ts w1")
  from Cons[of w1] a b show ?case by simp
qed

lemma Co_All_first:
  "Task_resume (Co_All ts) w =
     (if list_all Task_done ts
      then (Task (co_return_tuple (map ConvertVoidResult ts) initial_promise) Final [] [], w)
      else (case resume_each ts w of (ts', w') \<Rightarrow>
              if list_all Task_done ts'
              then (Task (co_return_tuple (map ConvertVoidResult ts') initial_promise) Final [] [], w')
              else (Task initial_promise (Suspended (CoAllLoop ts')) [] [], w')))"
  by (simp add: Co_All_def coroutine_def split: prod.split)

lemma Co_All_later:
  "Task_resume (Task initial_promise (Suspended (CoAllLoop ts)) [] []) w =
     (case resume_each ts w of (ts', w') \<Rightarrow>
        if list_all Task_done ts'
        then (Task (co_return_tuple (map ConvertVoidResult ts') initial_promise) Final [] [], w')
        else (Task initial_promise (Suspended (CoAllLoop ts')) [] [], w'))"
  by (simp split: prod.split)

lemma co_return_tuple_values:
  "map (\<lambda>t. fst (Task_value t)) ts = map Inr vs \<Longrightarrow>
   co_return_tuple (map ConvertVoidResult ts) p
     = return_value (TupleV (map VoidResultTypeReplace vs)) p"
proof -
  assume a: "map (\<lambda>t. fst (Task_value t)) ts = map Inr vs"
  have "map ConvertVoidResult ts
          = map (\<lambda>r. case r of Inl e \<Rightarrow> Inl e | Inr v \<Rightarrow> Inr (VoidResultTypeReplace v))
              (map (\<lambda>t. fst (Task_value t)) ts)"
    by (simp add: ConvertVoidResult_eq)
  also have "\<dots> = map Inr (map VoidResultTypeReplace vs)"
    unfolding a by simp
  finally have "make_tuple (map ConvertVoidResult ts) = Inr (map VoidResultTypeReplace vs)"
    by (simp add: make_tuple_Inr)
  then show ?thesis by (simp add: co_return_tuple_def)
qed

lemma Task_value_returned:
  "Task_value (Task (return_value v initial_promise) Final [] [])
     = (Inr v, Task ((return_value v initial_promise)\<lparr>m_resultConsumed := True\<rparr>) Final [] [])"
  by (simp add: Task_value_def Promise_value_def return_value_def initial_promise_def)

subsection \<open>\<open>All\<close>\<close>

lemma All_scenario:
  assumes t1: "Task_resume A w0 = (A1, wa)" "Task_resume B wa = (B1, w1)"
      and d1: "Task_done A1" "\<not> Task_done B1"
      and t2: "Task_resume B1 v1 = (B2, w2)" and d2: "\<not> Task_done B2"
      and t3: "Task_resume B2 v2 = (B3, w3)" and d3: "Task_done B3"
      and va: "fst (Task_value A1) = Inr va" and vb: "fst (Task_value B3) = Inr vb"
  shows "Task_resume (Co_All [A, B]) w0
           = (Task initial_promise (Suspended (CoAllLoop [A1, B1])) [] [], w1)"
    and "Task_resume (Task initial_promise (Suspended (CoAllLoop [A1, B1])) [] []) v1
           = (Task initial_promise (Suspended (CoAllLoop [A1, B2])) [] [], w2)"
    and "Task_resume (Task initial_promise (Suspended (CoAllLoop [A1, B2])) [] []) v2
           = (Task (return_value
                (TupleV [VoidResultTypeReplace va, VoidResultTypeReplace vb]) initial_promise)
                Final [] [], w3)"
proof -
  have nb: "\<not> Task_done B"
  proof
    assume "Task_done B"
    with t1(2) have "B1 = B" by (simp add: Task_resume_done)
    with d1(2) \<open>Task_done B\<close> show False by simp
  qed
  have r1: "resume_each [A, B] w0 = ([A1, B1], w1)" using t1 by simp
  show "Task_resume (Co_All [A, B]) w0
           = (Task initial_promise (Suspended (CoAllLoop [A1, B1])) [] [], w1)"
    using nb d1 r1 by (simp add: Co_All_first del: resume_each.simps)
  have r2: "resume_each [A1, B1] v1 = ([A1, B2], w2)"
    using t2 d1(1) by (simp add: Task_resume_done)
  show "Task_resume (Task initial_promise (Suspended (CoAllLoop [A1, B1])) [] []) v1
           = (Task initial_promise (Suspended (CoAllLoop [A1, B2])) [] [], w2)"
    using d2 r2 by (simp add: Co_All_later del: resume_each.simps Task_resume.simps)
  have r3: "resume_each [A1, B2] v2 = ([A1, B3], w3)"
    using t3 d1(1) by (simp add: Task_resume_done)
  have "map (\<lambda>t. fst (Task_value t)) [A1, B3] = map Inr [va, vb]" using va vb by simp
  then have "co_return_tuple (map ConvertVoidResult [A1, B3]) initial_promise
      = return_value (TupleV (map VoidResultTypeReplace [va, vb])) initial_promise"
    by (rule co_return_tuple_values)
  then show "Task_resume (Task initial_promise (Suspended (CoAllLoop [A1, B2])) [] []) v2
           = (Task (return_value
                (TupleV [VoidResultTypeReplace va, VoidResultTypeReplace vb]) initial_promise)
                Final [] [], w3)"
    using d1(1) d3 r3 by (simp add: Co_All_later del: resume_each.simps Task_resume.simps)
qed

text \<open>
  Claim C5. \<open>All\<close> of the tasks \<open>ts\<close>:
  \<^item> if every argument is done at entry and holds a value, the first resume ends \<open>All\<close> with the
    tuple of the values in argument order, \<open>VoidResult\<close> in place of the result of a void task,
    and leaves the world untouched (no argument is resumed);
  \<^item> otherwise each resume of \<open>All\<close>, the first one and every later one, resumes the arguments
    once, in argument order (the world is threaded through them from left to right); if
    some argument is still unfinished, \<open>All\<close> waits for the next frame, else it ends with the
    tuple;
  \<^item> resuming an argument that is done changes neither that task, so its result stays as
    it was produced, nor the world;
  \<^item> with \<open>A\<close> done by the first tick and \<open>B\<close> by the third, \<open>All [A, B]\<close> is not done after the
    first and second tick and ends at the third with the value that \<open>A\<close> held after the first.
\<close>

theorem All_waits_for_all:
  "(list_all Task_done ts \<and> map (\<lambda>t. fst (Task_value t)) ts = map Inr vs \<longrightarrow>
      Task_resume (Co_All ts) w
        = (Task (return_value (TupleV (map VoidResultTypeReplace vs)) initial_promise)
             Final [] [], w))
   \<and> (\<not> list_all Task_done ts \<and> resume_each ts w = (ts', w') \<longrightarrow>
        (\<not> list_all Task_done ts' \<longrightarrow>
           Task_resume (Co_All ts) w
             = (Task initial_promise (Suspended (CoAllLoop ts')) [] [], w'))
      \<and> (list_all Task_done ts' \<and> map (\<lambda>t. fst (Task_value t)) ts' = map Inr vs \<longrightarrow>
           Task_resume (Co_All ts) w
             = (Task (return_value (TupleV (map VoidResultTypeReplace vs)) initial_promise)
                  Final [] [], w')))
   \<and> (resume_each ts w = (ts', w') \<longrightarrow>
        (\<not> list_all Task_done ts' \<longrightarrow>
           Task_resume (Task initial_promise (Suspended (CoAllLoop ts)) [] []) w
             = (Task initial_promise (Suspended (CoAllLoop ts')) [] [], w'))
      \<and> (list_all Task_done ts' \<and> map (\<lambda>t. fst (Task_value t)) ts' = map Inr vs \<longrightarrow>
           Task_resume (Task initial_promise (Suspended (CoAllLoop ts)) [] []) w
             = (Task (return_value (TupleV (map VoidResultTypeReplace vs)) initial_promise)
                  Final [] [], w')))
   \<and> resume_each (xs @ ys) w
        = (case resume_each xs w of (xs', w1) \<Rightarrow>
           (case resume_each ys w1 of (ys', w2) \<Rightarrow> (xs' @ ys', w2)))
   \<and> (Task_done t \<longrightarrow> Task_resume t w = (t, w))
   \<and> (Task_resume A w0 = (A1, wa) \<and> Task_resume B wa = (B1, w1)
      \<and> Task_done A1 \<and> \<not> Task_done B1
      \<and> Task_resume B1 v1 = (B2, w2) \<and> \<not> Task_done B2
      \<and> Task_resume B2 v2 = (B3, w3) \<and> Task_done B3
      \<and> fst (Task_value A1) = Inr va \<and> fst (Task_value B3) = Inr vb \<longrightarrow>
        Task_resume (Co_All [A, B]) w0
          = (Task initial_promise (Suspended (CoAllLoop [A1, B1])) [] [], w1)
      \<and> Task_resume (Task initial_promise (Suspended (CoAllLoop [A1, B1])) [] []) v1
          = (Task initial_promise (Suspended (CoAllLoop [A1, B2])) [] [], w2)
      \<and> Task_resume (Task initial_promise (Suspended (CoAllLoop [A1, B2])) [] []) v2
          = (Task (return_value
               (TupleV [VoidResultTypeReplace va, VoidResultTypeReplace vb]) initial_promise)
               Final [] [], w3)
      \<and> fst (Task_value (Task (return_value
               (TupleV [VoidResultTypeReplace va, VoidResultTypeReplace vb]) initial_promise)
               Final [] []))
          = Inr (TupleV [VoidResultTypeReplace va, VoidResultTypeReplace vb]))"
proof (intro conjI impI)
  show "Task_resume (Co_All ts) w
        = (Task (return_value (TupleV (map VoidResultTypeReplace vs)) initial_promise)
             Final [] [], w)"
    if "list_all Task_done ts \<and> map (\<lambda>t. fst (Task_value t)) ts = map Inr vs"
    using that by (simp add: Co_All_first co_return_tuple_values)
  show "resume_each (xs @ ys) w
        = (case resume_each xs w of (xs', w1) \<Rightarrow>
           (case resume_each ys w1 of (ys', w2) \<Rightarrow> (xs' @ ys', w2)))"
    by (rule resume_each_append)
  show "Task_resume t w = (t, w)" if "Task_done t" using that by (rule Task_resume_done)
next
  assume a: "\<not> list_all Task_done ts \<and> resume_each ts w = (ts', w')"
  show "Task_resume (Co_All ts) w
             = (Task initial_promise (Suspended (CoAllLoop ts')) [] [], w')"
    if "\<not> list_all Task_done ts'"
    using a that by (simp add: Co_All_first)
  show "Task_resume (Co_All ts) w
             = (Task (return_value (TupleV (map VoidResultTypeReplace vs)) initial_promise)
                  Final [] [], w')"
    if "list_all Task_done ts' \<and> map (\<lambda>t. fst (Task_value t)) ts' = map Inr vs"
    using a that by (simp add: Co_All_first co_return_tuple_values)
next
  assume a: "resume_each ts w = (ts', w')"
  show "Task_resume (Task initial_promise (Suspended (CoAllLoop ts)) [] []) w
             = (Task initial_promise (Suspended (CoAllLoop ts')) [] [], w')"
    if "\<not> list_all Task_done ts'"
    using a that by (simp add: Co_All_later del: Task_resume.simps)
  show "Task_resume (Task initial_promise (Suspended (CoAllLoop ts)) [] []) w
             = (Task (return_value (TupleV (map VoidResultTypeReplace vs)) initial_promise)
                  Final [] [], w')"
    if "list_all Task_done ts' \<and> map (\<lambda>t. fst (Task_value t)) ts' = map Inr vs"
    using a that by (simp add: Co_All_later co_return_tuple_values del: Task_resume.simps)
next
  assume a: "Task_resume A w0 = (A1, wa) \<and> Task_resume B wa = (B1, w1)
      \<and> Task_done A1 \<and> \<not> Task_done B1
      \<and> Task_resume B1 v1 = (B2, w2) \<and> \<not> Task_done B2
      \<and> Task_resume B2 v2 = (B3, w3) \<and> Task_done B3
      \<and> fst (Task_value A1) = Inr va \<and> fst (Task_value B3) = Inr vb"
  then have s: "Task_resume A w0 = (A1, wa)" "Task_resume B wa = (B1, w1)"
      "Task_done A1" "\<not> Task_done B1"
      "Task_resume B1 v1 = (B2, w2)" "\<not> Task_done B2"
      "Task_resume B2 v2 = (B3, w3)" "Task_done B3"
      "fst (Task_value A1) = Inr va" "fst (Task_value B3) = Inr vb"
    by blast+
  note sc = All_scenario[OF s]
  show "Task_resume (Co_All [A, B]) w0
          = (Task initial_promise (Suspended (CoAllLoop [A1, B1])) [] [], w1)"
    by (rule sc(1))
  show "Task_resume (Task initial_promise (Suspended (CoAllLoop [A1, B1])) [] []) v1
          = (Task initial_promise (Suspended (CoAllLoop [A1, B2])) [] [], w2)"
    by (rule sc(2))
  show "Task_resume (Task initial_promise (Suspended (CoAllLoop [A1, B2])) [] []) v2
          = (Task (return_value
               (TupleV [VoidResultTypeReplace va, VoidResultTypeReplace vb]) initial_promise)
               Final [] [], w3)"
    by (rule sc(3))
  show "fst (Task_value (Task (return_value
               (TupleV [VoidResultTypeReplace va, VoidResultTypeReplace vb]) initial_promise)
               Final [] []))
          = Inr (TupleV [VoidResultTypeReplace va, VoidResultTypeReplace vb])"
    by (simp add: Task_value_returned)
qed

theorem All_waits_for_all_witness:
  "Task_resume (Co_All [coroutine (CoReturn (IntV 1)),
                        coroutine (CoNextFrame (CoNextFrame (CoReturn Void)))])
       \<lparr>s_pInstance = None, trace = []\<rparr>
     = (Task initial_promise (Suspended (CoAllLoop
          [Task (return_value (IntV 1) initial_promise) Final [] [],
           Task initial_promise (Suspended (CoNextFrame (CoReturn Void))) [] []])) [] [],
        \<lparr>s_pInstance = None, trace = []\<rparr>)
   \<and> Task_resume (Task initial_promise (Suspended (CoAllLoop
          [Task (return_value (IntV 1) initial_promise) Final [] [],
           Task initial_promise (Suspended (CoNextFrame (CoReturn Void))) [] []])) [] [])
       \<lparr>s_pInstance = None, trace = []\<rparr>
     = (Task initial_promise (Suspended (CoAllLoop
          [Task (return_value (IntV 1) initial_promise) Final [] [],
           Task initial_promise (Suspended (CoReturn Void)) [] []])) [] [],
        \<lparr>s_pInstance = None, trace = []\<rparr>)
   \<and> Task_resume (Task initial_promise (Suspended (CoAllLoop
          [Task (return_value (IntV 1) initial_promise) Final [] [],
           Task initial_promise (Suspended (CoReturn Void)) [] []])) [] [])
       \<lparr>s_pInstance = None, trace = []\<rparr>
     = (Task (return_value (TupleV [IntV 1, VoidResult]) initial_promise) Final [] [],
        \<lparr>s_pInstance = None, trace = []\<rparr>)
   \<and> Task_resume (Co_All [Task (return_value (IntV 1) initial_promise) Final [] [],
                          Task (return_value Void initial_promise) Final [] []])
       \<lparr>s_pInstance = None, trace = [Emitted 4]\<rparr>
     = (Task (return_value (TupleV [IntV 1, VoidResult]) initial_promise) Final [] [],
        \<lparr>s_pInstance = None, trace = [Emitted 4]\<rparr>)"
  using
    All_waits_for_all[where
      ts = "[coroutine (CoReturn (IntV 1)), coroutine (CoNextFrame (CoNextFrame (CoReturn Void)))]"
      and ts' = "[Task (return_value (IntV 1) initial_promise) Final [] [],
           Task initial_promise (Suspended (CoNextFrame (CoReturn Void))) [] []]"
      and w = "\<lparr>s_pInstance = None, trace = []\<rparr>"
      and w' = "\<lparr>s_pInstance = None, trace = []\<rparr>"
      and vs = "[]" and xs = "[]" and ys = "[]"
      and t = "Task (return_value (IntV 1) initial_promise) Final [] []"
      and A = "coroutine (CoReturn (IntV 1))"
      and B = "coroutine (CoNextFrame (CoNextFrame (CoReturn Void)))"
      and ?A1.0 = "Task (return_value (IntV 1) initial_promise) Final [] []"
      and ?B1.0 = "Task initial_promise (Suspended (CoNextFrame (CoReturn Void))) [] []"
      and ?B2.0 = "Task initial_promise (Suspended (CoReturn Void)) [] []"
      and ?B3.0 = "Task (return_value Void initial_promise) Final [] []"
      and ?w0.0 = "\<lparr>s_pInstance = None, trace = []\<rparr>"
      and wa = "\<lparr>s_pInstance = None, trace = []\<rparr>"
      and ?w1.0 = "\<lparr>s_pInstance = None, trace = []\<rparr>"
      and ?v1.0 = "\<lparr>s_pInstance = None, trace = []\<rparr>"
      and ?w2.0 = "\<lparr>s_pInstance = None, trace = []\<rparr>"
      and ?v2.0 = "\<lparr>s_pInstance = None, trace = []\<rparr>"
      and ?w3.0 = "\<lparr>s_pInstance = None, trace = []\<rparr>"
      and va = "IntV 1" and vb = Void]
    All_waits_for_all[where
      ts = "[Task (return_value (IntV 1) initial_promise) Final [] [],
             Task (return_value Void initial_promise) Final [] []]"
      and vs = "[IntV 1, Void]"
      and w = "\<lparr>s_pInstance = None, trace = [Emitted 4]\<rparr>"]
  by (simp add: coroutine_def initial_promise_def return_value_def Task_done_def
        Task_value_def Promise_value_def VoidResultTypeReplace_def)


subsection \<open>\<open>Any\<close>\<close>

text \<open>
  Claim C6, as the code has it. \<open>Any\<close> of the tasks \<open>ts\<close>:
  \<^item> if some argument is done at entry, the first resume ends \<open>Any\<close>, resuming no argument;
    otherwise each resume of \<open>Any\<close>, the first and every later one, resumes the arguments
    once in order, and ends \<open>Any\<close> as soon as one of them is done; else \<open>Any\<close> waits for the
    next frame;
  \<^item> the world after a resume of \<open>Any\<close> is the world the resumes of its arguments left: \<open>Any\<close>
    itself calls no callback and removes nothing, whether or not arguments are unfinished;
  \<^item> when every argument that is done holds a value, \<open>value\<close> on \<open>Any\<close> returns the tuple; when
    one of the arguments that are done holds a failure, \<open>Any\<close> ends in that same resume and
    \<open>value\<close> on \<open>Any\<close> throws the failure of such an argument;
  \<^item> once \<open>Any\<close> has ended, a resume of it changes nothing, in any world: no argument is
    resumed again, so an unfinished argument does not advance any further;
  \<^item> the tuple has one slot per argument, in order: absent for an unfinished argument,
    otherwise the value of the argument (\<open>VoidResult\<close> for a void task).
\<close>

theorem Any_ends_with_first_done:
  "(list_ex Task_done ts \<longrightarrow>
      snd (Task_resume (Co_Any ts) w) = w
    \<and> Task_done (fst (Task_resume (Co_Any ts) w))
    \<and> (make_tuple (map ConvertOptionalVoidResult ts) = Inr vs \<longrightarrow>
         fst (Task_value (fst (Task_resume (Co_Any ts) w))) = Inr (TupleV vs))
    \<and> (t \<in> set ts \<and> Task_done t \<and> fst (Task_value t) = Inl e \<longrightarrow>
         (\<exists>e' t'. t' \<in> set ts \<and> Task_done t' \<and> fst (Task_value t') = Inl e'
            \<and> fst (Task_value (fst (Task_resume (Co_Any ts) w))) = Inl e')))
   \<and> (\<not> list_ex Task_done ts \<and> resume_each ts w = (ts', w') \<longrightarrow>
        snd (Task_resume (Co_Any ts) w) = w'
      \<and> (\<not> list_ex Task_done ts' \<longrightarrow>
           fst (Task_resume (Co_Any ts) w)
             = Task initial_promise (Suspended (CoAnyLoop ts')) [] [])
      \<and> (list_ex Task_done ts' \<longrightarrow> Task_done (fst (Task_resume (Co_Any ts) w)))
      \<and> (list_ex Task_done ts' \<and> make_tuple (map ConvertOptionalVoidResult ts') = Inr vs \<longrightarrow>
           fst (Task_value (fst (Task_resume (Co_Any ts) w))) = Inr (TupleV vs))
      \<and> (t \<in> set ts' \<and> Task_done t \<and> fst (Task_value t) = Inl e \<longrightarrow>
           (\<exists>e' t'. t' \<in> set ts' \<and> Task_done t' \<and> fst (Task_value t') = Inl e'
              \<and> Task_done (fst (Task_resume (Co_Any ts) w))
              \<and> fst (Task_value (fst (Task_resume (Co_Any ts) w))) = Inl e')))
   \<and> (resume_each ts w = (ts', w') \<longrightarrow>
        snd (Task_resume (Task initial_promise (Suspended (CoAnyLoop ts)) [] []) w) = w'
      \<and> (\<not> list_ex Task_done ts' \<longrightarrow>
           fst (Task_resume (Task initial_promise (Suspended (CoAnyLoop ts)) [] []) w)
             = Task initial_promise (Suspended (CoAnyLoop ts')) [] [])
      \<and> (list_ex Task_done ts' \<longrightarrow>
           Task_done (fst (Task_resume (Task initial_promise (Suspended (CoAnyLoop ts)) [] []) w)))
      \<and> (list_ex Task_done ts' \<and> make_tuple (map ConvertOptionalVoidResult ts') = Inr vs \<longrightarrow>
           fst (Task_value (fst (Task_resume
                  (Task initial_promise (Suspended (CoAnyLoop ts)) [] []) w)))
             = Inr (TupleV vs))
      \<and> (t \<in> set ts' \<and> Task_done t \<and> fst (Task_value t) = Inl e \<longrightarrow>
           (\<exists>e' t'. t' \<in> set ts' \<and> Task_done t' \<and> fst (Task_value t') = Inl e'
              \<and> Task_done (fst (Task_resume
                     (Task initial_promise (Suspended (CoAnyLoop ts)) [] []) w))
              \<and> fst (Task_value (fst (Task_resume
                     (Task initial_promise (Suspended (CoAnyLoop ts)) [] []) w))) = Inl e')))
   \<and> (Task_done (fst (Task_resume (Co_Any ts) w)) \<longrightarrow>
        Task_resume (fst (Task_resume (Co_Any ts) w)) w2
          = (fst (Task_resume (Co_Any ts) w), w2))
   \<and> (Task_done (fst (Task_resume (Task initial_promise (Suspended (CoAnyLoop ts)) [] []) w)) \<longrightarrow>
        Task_resume (fst (Task_resume (Task initial_promise (Suspended (CoAnyLoop ts)) [] []) w)) w2
          = (fst (Task_resume (Task initial_promise (Suspended (CoAnyLoop ts)) [] []) w), w2))
   \<and> (make_tuple (map ConvertOptionalVoidResult ts) = Inr vs \<longrightarrow>
        length vs = length ts
      \<and> (\<forall>i<length ts.
            (\<not> Task_done (ts ! i) \<longrightarrow> vs ! i = OptV None)
          \<and> (Task_done (ts ! i) \<longrightarrow>
               (\<exists>v. fst (Task_value (ts ! i)) = Inr v
                  \<and> vs ! i = OptV (Some (VoidResultTypeReplace v))))))"
proof -
  have conv: "ConvertOptionalVoidResult u =
     (if \<not> Task_done u then Inr (OptV None)
      else (case fst (Task_value u) of
              Inl x \<Rightarrow> Inl x
            | Inr v \<Rightarrow> Inr (OptV (Some (VoidResultTypeReplace v)))))" for u
    by (simp add: ConvertOptionalVoidResult_def VoidResultTypeReplace_def
          split: sum.split val.split)
  have ended: "Task_done (Task p Final [] [])" for p
    by (simp add: Task_done_def)
  have returned: "fst (Task_value (Task (co_return_tuple rs initial_promise) Final [] []))
                    = Inr (TupleV xs)"
    if "make_tuple rs = Inr xs" for rs xs
    using that
    by (simp add: co_return_tuple_def Task_value_def Promise_value_def return_value_def
          initial_promise_def)
  have thrown: "fst (Task_value (Task (co_return_tuple rs initial_promise) Final [] []))
                  = Inl x"
    if "make_tuple rs = Inl x" for rs x
    using that
    by (simp add: co_return_tuple_def Task_value_def Promise_value_def unhandled_exception_def
          initial_promise_def)
  have failure: "\<exists>e' t'. t' \<in> set us \<and> Task_done t' \<and> fst (Task_value t') = Inl e'
        \<and> fst (Task_value (Task (co_return_tuple (map ConvertOptionalVoidResult us)
               initial_promise) Final [] [])) = Inl e'"
    if b: "t \<in> set us \<and> Task_done t \<and> fst (Task_value t) = Inl e" for us
  proof -
    from b have "ConvertOptionalVoidResult t = Inl e" by (simp add: conv)
    with b have "Inl e \<in> set (map ConvertOptionalVoidResult us)" by force
    then obtain e' where f: "make_tuple (map ConvertOptionalVoidResult us) = Inl e'"
      using make_tuple_fails by blast
    then have "Inl e' \<in> set (map ConvertOptionalVoidResult us)" by (rule make_tuple_Inl)
    then obtain t' where t': "t' \<in> set us" "ConvertOptionalVoidResult t' = Inl e'" by auto
    then have "Task_done t' \<and> fst (Task_value t') = Inl e'"
      by (cases "fst (Task_value t')") (auto simp: conv split: if_splits)
    with t'(1) thrown[OF f] show ?thesis by blast
  qed
  have first: "Task_resume (Co_Any ts) w =
     (if list_ex Task_done ts
      then (Task (co_return_tuple (map ConvertOptionalVoidResult ts) initial_promise) Final [] [], w)
      else (case resume_each ts w of (us, w1) \<Rightarrow>
              if list_ex Task_done us
              then (Task (co_return_tuple (map ConvertOptionalVoidResult us) initial_promise)
                      Final [] [], w1)
              else (Task initial_promise (Suspended (CoAnyLoop us)) [] [], w1)))"
    by (simp add: Co_Any_def coroutine_def split: prod.split)
  have later: "Task_resume (Task initial_promise (Suspended (CoAnyLoop ts)) [] []) w =
     (case resume_each ts w of (us, w1) \<Rightarrow>
        if list_ex Task_done us
        then (Task (co_return_tuple (map ConvertOptionalVoidResult us) initial_promise)
                Final [] [], w1)
        else (Task initial_promise (Suspended (CoAnyLoop us)) [] [], w1))"
    by (simp split: prod.split)
  have no_more: "Task_resume u w2 = (u, w2)" if "Task_done u" for u
    using that by (cases u) (simp add: Task_done_def)
  show ?thesis
  proof (intro conjI impI allI)
    assume a: "list_ex Task_done ts"
    then have eq: "Task_resume (Co_Any ts) w
        = (Task (co_return_tuple (map ConvertOptionalVoidResult ts) initial_promise) Final [] [], w)"
      by (simp add: first)
    show "snd (Task_resume (Co_Any ts) w) = w" by (simp add: eq)
    show "Task_done (fst (Task_resume (Co_Any ts) w))" by (simp add: eq ended)
    show "fst (Task_value (fst (Task_resume (Co_Any ts) w))) = Inr (TupleV vs)"
      if "make_tuple (map ConvertOptionalVoidResult ts) = Inr vs"
      using returned[OF that] by (simp add: eq)
    show "\<exists>e' t'. t' \<in> set ts \<and> Task_done t' \<and> fst (Task_value t') = Inl e'
              \<and> fst (Task_value (fst (Task_resume (Co_Any ts) w))) = Inl e'"
      if "t \<in> set ts \<and> Task_done t \<and> fst (Task_value t) = Inl e"
      using failure[OF that] by (simp add: eq)
  next
    assume a: "\<not> list_ex Task_done ts \<and> resume_each ts w = (ts', w')"
    then have eq: "Task_resume (Co_Any ts) w =
        (if list_ex Task_done ts'
         then (Task (co_return_tuple (map ConvertOptionalVoidResult ts') initial_promise)
                 Final [] [], w')
         else (Task initial_promise (Suspended (CoAnyLoop ts')) [] [], w'))"
      by (simp add: first)
    show "snd (Task_resume (Co_Any ts) w) = w'" by (simp add: eq)
    show "fst (Task_resume (Co_Any ts) w) = Task initial_promise (Suspended (CoAnyLoop ts')) [] []"
      if "\<not> list_ex Task_done ts'"
      using that by (simp add: eq)
    show "Task_done (fst (Task_resume (Co_Any ts) w))" if "list_ex Task_done ts'"
      using that by (simp add: eq ended)
    show "fst (Task_value (fst (Task_resume (Co_Any ts) w))) = Inr (TupleV vs)"
      if b: "list_ex Task_done ts' \<and> make_tuple (map ConvertOptionalVoidResult ts') = Inr vs"
    proof -
      from b have d: "list_ex Task_done ts'"
        and m: "make_tuple (map ConvertOptionalVoidResult ts') = Inr vs" by blast+
      show ?thesis using returned[OF m] d by (simp add: eq)
    qed
    show "\<exists>e' t'. t' \<in> set ts' \<and> Task_done t' \<and> fst (Task_value t') = Inl e'
                \<and> Task_done (fst (Task_resume (Co_Any ts) w))
                \<and> fst (Task_value (fst (Task_resume (Co_Any ts) w))) = Inl e'"
      if b: "t \<in> set ts' \<and> Task_done t \<and> fst (Task_value t) = Inl e"
    proof -
      from b have d: "list_ex Task_done ts'" by (auto simp: list_ex_iff)
      show ?thesis using failure[OF b] d by (simp add: eq ended)
    qed
  next
    assume a: "resume_each ts w = (ts', w')"
    then have eq: "Task_resume (Task initial_promise (Suspended (CoAnyLoop ts)) [] []) w =
        (if list_ex Task_done ts'
         then (Task (co_return_tuple (map ConvertOptionalVoidResult ts') initial_promise)
                 Final [] [], w')
         else (Task initial_promise (Suspended (CoAnyLoop ts')) [] [], w'))"
      by (simp add: later del: Task_resume.simps)
    show "snd (Task_resume (Task initial_promise (Suspended (CoAnyLoop ts)) [] []) w) = w'"
      by (simp add: eq del: Task_resume.simps)
    show "fst (Task_resume (Task initial_promise (Suspended (CoAnyLoop ts)) [] []) w)
            = Task initial_promise (Suspended (CoAnyLoop ts')) [] []"
      if "\<not> list_ex Task_done ts'"
      using that by (simp add: eq del: Task_resume.simps)
    show "Task_done (fst (Task_resume (Task initial_promise (Suspended (CoAnyLoop ts)) [] []) w))"
      if "list_ex Task_done ts'"
      using that by (simp add: eq ended del: Task_resume.simps)
    show "fst (Task_value (fst (Task_resume
                    (Task initial_promise (Suspended (CoAnyLoop ts)) [] []) w)))
               = Inr (TupleV vs)"
      if b: "list_ex Task_done ts' \<and> make_tuple (map ConvertOptionalVoidResult ts') = Inr vs"
    proof -
      from b have d: "list_ex Task_done ts'"
        and m: "make_tuple (map ConvertOptionalVoidResult ts') = Inr vs" by blast+
      show ?thesis using returned[OF m] d by (simp add: eq del: Task_resume.simps)
    qed
    show "\<exists>e' t'. t' \<in> set ts' \<and> Task_done t' \<and> fst (Task_value t') = Inl e'
                \<and> Task_done (fst (Task_resume
                       (Task initial_promise (Suspended (CoAnyLoop ts)) [] []) w))
                \<and> fst (Task_value (fst (Task_resume
                       (Task initial_promise (Suspended (CoAnyLoop ts)) [] []) w))) = Inl e'"
      if b: "t \<in> set ts' \<and> Task_done t \<and> fst (Task_value t) = Inl e"
    proof -
      from b have d: "list_ex Task_done ts'" by (auto simp: list_ex_iff)
      show ?thesis using failure[OF b] d by (simp add: eq ended del: Task_resume.simps)
    qed
  next
    show "Task_resume (fst (Task_resume (Co_Any ts) w)) w2
            = (fst (Task_resume (Co_Any ts) w), w2)"
      if "Task_done (fst (Task_resume (Co_Any ts) w))"
      using that by (rule no_more)
    show "Task_resume (fst (Task_resume (Task initial_promise (Suspended (CoAnyLoop ts)) [] []) w)) w2
            = (fst (Task_resume (Task initial_promise (Suspended (CoAnyLoop ts)) [] []) w), w2)"
      if "Task_done (fst (Task_resume (Task initial_promise (Suspended (CoAnyLoop ts)) [] []) w))"
      using that by (rule no_more)
  next
    assume m: "make_tuple (map ConvertOptionalVoidResult ts) = Inr vs"
    then have mm: "map ConvertOptionalVoidResult ts = map Inr vs" by (simp add: make_tuple_Inr)
    then show l: "length vs = length ts" by (metis length_map)
    fix i
    assume i: "i < length ts"
    have n: "ConvertOptionalVoidResult (ts ! i) = Inr (vs ! i)"
      using i l mm by (metis nth_map)
    show "vs ! i = OptV None" if "\<not> Task_done (ts ! i)"
      using n that by (simp add: conv)
    show "\<exists>v. fst (Task_value (ts ! i)) = Inr v \<and> vs ! i = OptV (Some (VoidResultTypeReplace v))"
      if "Task_done (ts ! i)"
      using n that by (cases "fst (Task_value (ts ! i))") (simp_all add: conv)
  qed
qed

theorem Any_ends_with_first_done_witness:
  "Task_resume (Co_Any [coroutine (CoNextFrame (CoThrow (Fault 9))), coroutine CoWaitForever])
       \<lparr>s_pInstance = None, trace = []\<rparr>
     = (Task initial_promise (Suspended (CoAnyLoop
          [Task initial_promise (Suspended (CoThrow (Fault 9))) [] [],
           Task initial_promise (Suspended CoWaitForever) [] []])) [] [],
        \<lparr>s_pInstance = None, trace = []\<rparr>)
   \<and> Task_done (fst (Task_resume (Task initial_promise (Suspended (CoAnyLoop
          [Task initial_promise (Suspended (CoThrow (Fault 9))) [] [],
           Task initial_promise (Suspended CoWaitForever) [] []])) [] [])
       \<lparr>s_pInstance = None, trace = []\<rparr>))
   \<and> fst (Task_value (fst (Task_resume (Task initial_promise (Suspended (CoAnyLoop
          [Task initial_promise (Suspended (CoThrow (Fault 9))) [] [],
           Task initial_promise (Suspended CoWaitForever) [] []])) [] [])
       \<lparr>s_pInstance = None, trace = []\<rparr>))) = Inl (Fault 9)
   \<and> Task_done (fst (Task_resume (Co_Any [coroutine (CoEmit 1 (CoReturn (IntV 3))),
                          coroutine (CoEmit 2 (CoNextFrame (CoEmit 2 CoWaitForever)))])
       \<lparr>s_pInstance = None, trace = []\<rparr>))
   \<and> fst (Task_value (fst (Task_resume (Co_Any [coroutine (CoEmit 1 (CoReturn (IntV 3))),
                          coroutine (CoEmit 2 (CoNextFrame (CoEmit 2 CoWaitForever)))])
       \<lparr>s_pInstance = None, trace = []\<rparr>))) = Inr (TupleV [OptV (Some (IntV 3)), OptV None])
   \<and> snd (Task_resume (Co_Any [coroutine (CoEmit 1 (CoReturn (IntV 3))),
                          coroutine (CoEmit 2 (CoNextFrame (CoEmit 2 CoWaitForever)))])
       \<lparr>s_pInstance = None, trace = []\<rparr>) = \<lparr>s_pInstance = None, trace = [Emitted 1, Emitted 2]\<rparr>
   \<and> snd (Task_resume (fst (Task_resume (Co_Any [coroutine (CoEmit 1 (CoReturn (IntV 3))),
                          coroutine (CoEmit 2 (CoNextFrame (CoEmit 2 CoWaitForever)))])
       \<lparr>s_pInstance = None, trace = []\<rparr>)) \<lparr>s_pInstance = None, trace = [Emitted 1, Emitted 2]\<rparr>)
     = \<lparr>s_pInstance = None, trace = [Emitted 1, Emitted 2]\<rparr>
   \<and> Task_resume (Co_Any [coroutine (CoEmit 2 CoWaitForever),
                          Task (return_value Void initial_promise) Final [] []])
       \<lparr>s_pInstance = None, trace = []\<rparr>
     = (Task (return_value (TupleV [OptV None, OptV (Some VoidResult)]) initial_promise)
          Final [] [],
        \<lparr>s_pInstance = None, trace = []\<rparr>)"
  using
    Any_ends_with_first_done[where
      ts = "[coroutine (CoNextFrame (CoThrow (Fault 9))), coroutine CoWaitForever]"
      and ts' = "[Task initial_promise (Suspended (CoThrow (Fault 9))) [] [],
           Task initial_promise (Suspended CoWaitForever) [] []]"
      and w = "\<lparr>s_pInstance = None, trace = []\<rparr>"
      and w' = "\<lparr>s_pInstance = None, trace = []\<rparr>"
      and ?w2.0 = "\<lparr>s_pInstance = None, trace = []\<rparr>"
      and vs = "[]" and e = "Fault 9"
      and t = "Task initial_promise (Suspended (CoThrow (Fault 9))) [] []"]
    Any_ends_with_first_done[where
      ts = "[Task initial_promise (Suspended (CoThrow (Fault 9))) [] [],
           Task initial_promise (Suspended CoWaitForever) [] []]"
      and ts' = "[Task (unhandled_exception (Fault 9) initial_promise) Final [] [],
           Task initial_promise (Suspended CoWaitForever) [] []]"
      and w = "\<lparr>s_pInstance = None, trace = []\<rparr>"
      and w' = "\<lparr>s_pInstance = None, trace = []\<rparr>"
      and ?w2.0 = "\<lparr>s_pInstance = None, trace = []\<rparr>"
      and vs = "[]" and e = "Fault 9"
      and t = "Task (unhandled_exception (Fault 9) initial_promise) Final [] []"]
    Any_ends_with_first_done[where
      ts = "[coroutine (CoEmit 1 (CoReturn (IntV 3))),
             coroutine (CoEmit 2 (CoNextFrame (CoEmit 2 CoWaitForever)))]"
      and ts' = "[Task (return_value (IntV 3) initial_promise) Final [] [],
           Task initial_promise (Suspended (CoEmit 2 CoWaitForever)) [] []]"
      and w = "\<lparr>s_pInstance = None, trace = []\<rparr>"
      and w' = "\<lparr>s_pInstance = None, trace = [Emitted 1, Emitted 2]\<rparr>"
      and ?w2.0 = "\<lparr>s_pInstance = None, trace = [Emitted 1, Emitted 2]\<rparr>"
      and vs = "[OptV (Some (IntV 3)), OptV None]" and e = "Fault 9"
      and t = "Task initial_promise (Suspended CoWaitForever) [] []"]
    Any_ends_with_first_done[where
      ts = "[coroutine (CoEmit 2 CoWaitForever),
             Task (return_value Void initial_promise) Final [] []]"
      and ts' = "[]"
      and w = "\<lparr>s_pInstance = None, trace = []\<rparr>"
      and w' = "\<lparr>s_pInstance = None, trace = []\<rparr>"
      and ?w2.0 = "\<lparr>s_pInstance = None, trace = []\<rparr>"
      and vs = "[OptV None, OptV (Some VoidResult)]" and e = "Fault 9"
      and t = "Task initial_promise (Suspended CoWaitForever) [] []"]
  by (simp add: coroutine_def initial_promise_def return_value_def unhandled_exception_def
        Task_done_def Task_value_def Promise_value_def VoidResultTypeReplace_def
        Co_Any_def co_return_tuple_def ConvertOptionalVoidResult_def)

text \<open>
  The claim as stated fails for the unfinished arguments: they are not left running. The
  arguments are parameters of the coroutine \<open>Any\<close> and are resumed by nothing but its loop.
  Here \<open>Any\<close> of \<open>A\<close>, which returns 3 after one frame, and of \<open>B\<close>, which emits 2 in each of its
  first three frames, is spawned and registered as entry 1 (\<open>B\<close> emits for the first time).
  In the first tick \<open>A\<close> ends, \<open>B\<close> emits for the second time, \<open>Any\<close> ends, the finish callback
  (tag 1) gets the tuple and the entry is erased, \<open>B\<close> with it. In the second tick nothing is
  emitted, although \<open>B\<close> is unfinished and a resume of it would emit 2.
\<close>

theorem Any_siblings_counterexample:
  "ScopedTaskRunner_new
       (Co_Any [coroutine (CoNextFrame (CoReturn (IntV 3))),
                coroutine (CoEmit 2 (CoNextFrame (CoEmit 2 (CoNextFrame (CoEmit 2 CoWaitForever)))))])
       (Some (Callback 1 None)) (Some (Callback 2 None)) (idle_world 1 [] [])
     = (Inr \<lparr>m_id = Some 1\<rparr>,
        idle_world 2
          [(1, suspended_entry
                 (CoAnyLoop
                    [Task initial_promise (Suspended (CoReturn (IntV 3))) [] [],
                     Task initial_promise
                       (Suspended (CoEmit 2 (CoNextFrame (CoEmit 2 CoWaitForever)))) [] []])
                 (Some (Callback 1 None)) (Some (Callback 2 None)))]
          [Emitted 2])
   \<and> Backend_update
       (idle_world 2
          [(1, suspended_entry
                 (CoAnyLoop
                    [Task initial_promise (Suspended (CoReturn (IntV 3))) [] [],
                     Task initial_promise
                       (Suspended (CoEmit 2 (CoNextFrame (CoEmit 2 CoWaitForever)))) [] []])
                 (Some (Callback 1 None)) (Some (Callback 2 None)))]
          [Emitted 2])
     = (None,
        idle_world 2 []
          [Emitted 2, Emitted 2,
           FinishCalled 1 (TupleV [OptV (Some (IntV 3)), OptV None])])
   \<and> Backend_update
       (idle_world 2 []
          [Emitted 2, Emitted 2,
           FinishCalled 1 (TupleV [OptV (Some (IntV 3)), OptV None])])
     = (None,
        idle_world 2 []
          [Emitted 2, Emitted 2,
           FinishCalled 1 (TupleV [OptV (Some (IntV 3)), OptV None])])
   \<and> \<not> Task_done (Task initial_promise (Suspended (CoEmit 2 CoWaitForever)) [] [])
   \<and> trace (snd (Task_resume (Task initial_promise (Suspended (CoEmit 2 CoWaitForever)) [] [])
        (idle_world 2 []
          [Emitted 2, Emitted 2,
           FinishCalled 1 (TupleV [OptV (Some (IntV 3)), OptV None])])))
     = [Emitted 2, Emitted 2,
        FinishCalled 1 (TupleV [OptV (Some (IntV 3)), OptV None]), Emitted 2]"
  by (simp add: coroutine_def Co_Any_def co_return_tuple_def ConvertOptionalVoidResult_def
        ScopedTaskRunner_new_def ResumeAwaiterOnceAndRegisterIfNotDone_def Backend_Add_def
        fnCallFinishCallback_def backend_eval)


subsection \<open>\<open>OrderedExecutor\<close>\<close>

lemma CallerKey_less_irrefl [simp]: "\<not> CallerKey_less a a"
  by (simp add: CallerKey_less_def)

lemma CallerKey_less_trans: "CallerKey_less a b \<Longrightarrow> CallerKey_less b c \<Longrightarrow> CallerKey_less a c"
  by (auto simp: CallerKey_less_def split: if_splits)

lemma CallerKey_equiv_eq: "CallerKey_equiv a b \<longleftrightarrow> a = (b :: CallerKey)"
  by (cases a, cases b) (auto simp: CallerKey_equiv_def CallerKey_less_def split: if_splits)

lemma CallerKey_less_other_id:
  "key_id a \<noteq> key_id b \<Longrightarrow> CallerKey_less a b \<or> CallerKey_less b a"
  by (auto simp: CallerKey_less_def)

lemma callers_find_map_of: "callers_find k xs = map_of xs k"
  by (induction xs) (auto simp: CallerKey_equiv_eq)

lemma callers_erase_filter: "callers_erase k xs = filter (\<lambda>kc. fst kc \<noteq> k) xs"
  by (simp add: callers_erase_def CallerKey_equiv_eq eq_commute)

lemma sorted_callers_distinct:
  "sorted_wrt CallerKey_less (map fst xs) \<Longrightarrow> distinct (map fst xs)"
  by (induction xs) auto

lemma callers_insert_new:
  assumes "sorted_wrt CallerKey_less (map fst xs)" "k \<notin> fst ` set xs"
  shows "snd (callers_insert k c xs)
       \<and> set (fst (callers_insert k c xs)) = insert (k, c) (set xs)
       \<and> sorted_wrt CallerKey_less (map fst (fst (callers_insert k c xs)))"
  using assms
proof (induction xs)
  case Nil
  then show ?case by simp
next
  case (Cons x xs)
  obtain k' c' where x: "x = (k', c')" by (cases x)
  from Cons.prems x have ne: "k \<noteq> k'" and nin: "k \<notin> fst ` set xs"
    and s: "sorted_wrt CallerKey_less (map fst xs)"
    and h: "\<forall>y \<in> set xs. CallerKey_less k' (fst y)"
    by auto
  show ?case
  proof (cases "CallerKey_less k k'")
    case True
    have "\<forall>y \<in> set xs. CallerKey_less k (fst y)"
      using h True CallerKey_less_trans by blast
    with True x s h show ?thesis by auto
  next
    case False
    with ne have l: "CallerKey_less k' k"
      using CallerKey_equiv_eq[of k k'] by (auto simp: CallerKey_equiv_def)
    obtain ys b where i: "callers_insert k c xs = (ys, b)" by (cases "callers_insert k c xs")
    from Cons.IH[OF s nin] i have b: "b" and ys: "set ys = insert (k, c) (set xs)"
      and sy: "sorted_wrt CallerKey_less (map fst ys)" by simp_all
    from ys h l have "\<forall>y \<in> set ys. CallerKey_less k' (fst y)" by auto
    with False l x i b ys sy show ?thesis by auto
  qed
qed

lemma sorted_filter_callers:
  "sorted_wrt CallerKey_less (map fst xs) \<Longrightarrow>
   sorted_wrt CallerKey_less (map fst (filter P xs))"
  by (induction xs) auto

lemma executor_okD:
  assumes "executor_ok ex"
  shows "sorted_wrt CallerKey_less (map fst (m_callers ex))"
    and "distinct (map (\<lambda>kc. key_id (fst kc)) (m_callers ex))"
    and "kc \<in> set (m_callers ex) \<Longrightarrow> key_id (fst kc) < m_nextID ex"
    and "kc \<in> set (m_callers ex) \<Longrightarrow> m_callerKeyByID ex (key_id (fst kc)) = Some (fst kc)"
    and "dom (m_callerKeyByID ex) \<subseteq> (\<lambda>kc. key_id (fst kc)) ` set (m_callers ex)"
  using assms by (auto simp: executor_ok_def list_all_iff)

lemma executor_okI:
  assumes "sorted_wrt CallerKey_less (map fst (m_callers ex))"
    and "distinct (map (\<lambda>kc. key_id (fst kc)) (m_callers ex))"
    and "\<And>kc. kc \<in> set (m_callers ex) \<Longrightarrow> key_id (fst kc) < m_nextID ex"
    and "\<And>kc. kc \<in> set (m_callers ex) \<Longrightarrow> m_callerKeyByID ex (key_id (fst kc)) = Some (fst kc)"
    and "dom (m_callerKeyByID ex) \<subseteq> (\<lambda>kc. key_id (fst kc)) ` set (m_callers ex)"
  shows "executor_ok ex"
  using assms by (auto simp: executor_ok_def list_all_iff)

lemma same_id_same_entry:
  assumes "distinct (map (\<lambda>kc. key_id (fst kc)) xs)" "a \<in> set xs" "b \<in> set xs"
    "key_id (fst a) = key_id (fst b)"
  shows "a = b"
  using assms by (meson distinct_map inj_onD)

lemma reinsert_step:
  fixes ex :: "'s OrderedExecutor"
  assumes ok: "executor_ok ex" and present: "(oldKey, c) \<in> set (m_callers ex)"
  shows "callers_find oldKey (m_callers ex) = Some c"
    and "\<exists>cs. callers_insert \<lparr>key_id = key_id oldKey, sortingOrder = n\<rparr> c
                  (callers_erase oldKey (m_callers ex)) = (cs, True)
           \<and> set cs = insert (\<lparr>key_id = key_id oldKey, sortingOrder = n\<rparr>, c)
                        (set (m_callers ex) - {(oldKey, c)})
           \<and> executor_ok (ex\<lparr>m_callers := cs,
                 m_callerKeyByID := (m_callerKeyByID ex)
                   (key_id oldKey \<mapsto> \<lparr>key_id = key_id oldKey, sortingOrder = n\<rparr>)\<rparr>)"
proof -
  let ?xs = "m_callers ex"
  let ?new = "\<lparr>key_id = key_id oldKey, sortingOrder = n\<rparr>"
  let ?er = "callers_erase oldKey ?xs"
  note d = executor_okD[OF ok]
  have dk: "distinct (map fst ?xs)" using d(1) by (rule sorted_callers_distinct)
  show "callers_find oldKey ?xs = Some c"
    using dk present by (simp add: callers_find_map_of)
  have only: "kc = (oldKey, c)" if "kc \<in> set ?xs" "key_id (fst kc) = key_id oldKey" for kc
    using same_id_same_entry[OF d(2) that(1) present] that(2) by simp
  have er: "set ?er = set ?xs - {(oldKey, c)}"
  proof -
    have "kc \<in> set ?xs \<and> kc \<noteq> (oldKey, c)" if "kc \<in> set ?er" for kc
      using that by (auto simp: callers_erase_filter)
    moreover have "kc \<in> set ?er" if "kc \<in> set ?xs" "kc \<noteq> (oldKey, c)" for kc
    proof -
      have "fst kc \<noteq> oldKey"
      proof
        assume "fst kc = oldKey"
        then have "key_id (fst kc) = key_id oldKey" by simp
        from only[OF that(1) this] that(2) show False by simp
      qed
      with that(1) show ?thesis by (simp add: callers_erase_filter)
    qed
    ultimately show ?thesis by blast
  qed
  have ser: "sorted_wrt CallerKey_less (map fst ?er)"
    unfolding callers_erase_filter using d(1) by (rule sorted_filter_callers)
  have nin: "?new \<notin> fst ` set ?er"
  proof
    assume "?new \<in> fst ` set ?er"
    then obtain kc where kc: "kc \<in> set ?er" "fst kc = ?new" by auto
    then have "kc \<in> set ?xs" "key_id (fst kc) = key_id oldKey" using er by auto
    then have "kc = (oldKey, c)" by (rule only)
    with kc(1) er show False by simp
  qed
  obtain cs b where i: "callers_insert ?new c ?er = (cs, b)"
    by (cases "callers_insert ?new c ?er")
  from callers_insert_new[OF ser nin, of c] i
  have b: "b" and cs: "set cs = insert (?new, c) (set ?er)"
    and scs: "sorted_wrt CallerKey_less (map fst cs)" by simp_all
  have cs': "set cs = insert (?new, c) (set ?xs - {(oldKey, c)})" using cs er by simp
  let ?ex' = "ex\<lparr>m_callers := cs,
                 m_callerKeyByID := (m_callerKeyByID ex)(key_id oldKey \<mapsto> ?new)\<rparr>"
  have ids: "(\<lambda>kc. key_id (fst kc)) ` set cs = (\<lambda>kc. key_id (fst kc)) ` set ?xs"
    using cs' present by force
  have "distinct cs" using sorted_callers_distinct[OF scs] by (simp add: distinct_map)
  moreover have "inj_on (\<lambda>kc. key_id (fst kc)) (set cs)"
  proof (rule inj_onI)
    fix a b assume a: "a \<in> set cs" and b: "b \<in> set cs"
      and e: "key_id (fst a) = key_id (fst b)"
    have r: "x = (?new, c)" if "x \<in> set cs" "key_id (fst x) = key_id oldKey" for x
    proof (rule ccontr)
      assume "x \<noteq> (?new, c)"
      with that(1) cs' have "x \<in> set ?xs" "x \<noteq> (oldKey, c)" by auto
      with only[OF this(1) that(2)] show False by simp
    qed
    show "a = b"
    proof (cases "key_id (fst a) = key_id oldKey")
      case True
      with r[OF a] r[OF b] e show ?thesis by simp
    next
      case False
      with a b e cs' have "a \<in> set ?xs" "b \<in> set ?xs" by auto
      with same_id_same_entry[OF d(2) this e] show ?thesis by simp
    qed
  qed
  ultimately have dist: "distinct (map (\<lambda>kc. key_id (fst kc)) cs)"
    by (simp add: distinct_map)
  have "executor_ok ?ex'"
  proof (rule executor_okI)
    show "sorted_wrt CallerKey_less (map fst (m_callers ?ex'))" using scs by simp
    show "distinct (map (\<lambda>kc. key_id (fst kc)) (m_callers ?ex'))" using dist by simp
    show "key_id (fst kc) < m_nextID ?ex'" if "kc \<in> set (m_callers ?ex')" for kc
      using that cs' d(3)[of kc] d(3)[OF present] by auto
    show "m_callerKeyByID ?ex' (key_id (fst kc)) = Some (fst kc)"
      if "kc \<in> set (m_callers ?ex')" for kc
    proof (cases "kc = (?new, c)")
      case True
      then show ?thesis by simp
    next
      case False
      with that cs' have in_xs: "kc \<in> set ?xs" and ne: "kc \<noteq> (oldKey, c)" by auto
      with only[OF in_xs] have "key_id (fst kc) \<noteq> key_id oldKey" by auto
      with d(4)[OF in_xs] show ?thesis by simp
    qed
    show "dom (m_callerKeyByID ?ex') \<subseteq> (\<lambda>kc. key_id (fst kc)) ` set (m_callers ?ex')"
    proof -
      have "key_id oldKey \<in> (\<lambda>kc. key_id (fst kc)) ` set ?xs"
        using present by force
      with d(5) ids show ?thesis by auto
    qed
  qed
  with i b cs' show "\<exists>cs. callers_insert ?new c ?er = (cs, True)
           \<and> set cs = insert (?new, c) (set ?xs - {(oldKey, c)})
           \<and> executor_ok (ex\<lparr>m_callers := cs,
                 m_callerKeyByID := (m_callerKeyByID ex)(key_id oldKey \<mapsto> ?new)\<rparr>)"
    by auto
qed

lemma reinsert_changed_ok:
  fixes ex :: "'s OrderedExecutor"
  assumes "executor_ok ex"
    and "\<And>kn. kn \<in> set work \<Longrightarrow>
           \<exists>c. (fst kn, c) \<in> set (m_callers ex) \<and> snd kn = sortingOrderFunc c s"
    and "distinct (map (\<lambda>kn. key_id (fst kn)) work)"
    and "\<And>kc. kc \<in> set (m_callers ex) \<Longrightarrow>
           sortingOrder (fst kc) = sortingOrderFunc (snd kc) s \<or> fst kc \<in> fst ` set work"
  shows "\<exists>ex'. reinsert_changed work ex = (None, ex') \<and> executor_ok ex'
           \<and> m_nextID ex' = m_nextID ex \<and> registered ex' = registered ex
           \<and> (\<forall>kc \<in> set (m_callers ex').
                 sortingOrder (fst kc) = sortingOrderFunc (snd kc) s)"
  using assms
proof (induction work arbitrary: ex)
  case Nil
  then show ?case by auto
next
  case (Cons kn rest)
  obtain oldKey n where kn: "kn = (oldKey, n)" by (cases kn)
  let ?new = "\<lparr>key_id = key_id oldKey, sortingOrder = n\<rparr>"
  from Cons.prems(2)[of kn] kn obtain c
    where c: "(oldKey, c) \<in> set (m_callers ex)" and n: "n = sortingOrderFunc c s" by auto
  note d = executor_okD[OF Cons.prems(1)]
  have f: "callers_find oldKey (m_callers ex) = Some c"
    by (rule reinsert_step(1)[OF Cons.prems(1) c])
  from reinsert_step(2)[OF Cons.prems(1) c, where n = n] obtain cs
    where i: "callers_insert ?new c (callers_erase oldKey (m_callers ex)) = (cs, True)"
      and cs: "set cs = insert (?new, c) (set (m_callers ex) - {(oldKey, c)})"
      and ok1: "executor_ok (ex\<lparr>m_callers := cs,
                 m_callerKeyByID := (m_callerKeyByID ex)(key_id oldKey \<mapsto> ?new)\<rparr>)"
    by auto
  let ?ex1 = "ex\<lparr>m_callers := cs,
                 m_callerKeyByID := (m_callerKeyByID ex)(key_id oldKey \<mapsto> ?new)\<rparr>"
  have other: "fst kn' \<noteq> oldKey \<and> key_id (fst kn') \<noteq> key_id oldKey" if "kn' \<in> set rest" for kn'
    using that Cons.prems(3) kn by force
  have only: "kc = (oldKey, c)" if "kc \<in> set (m_callers ex)" "fst kc = oldKey" for kc
    using same_id_same_entry[OF d(2) that(1) c] that(2) by simp
  have p2: "\<exists>c'. (fst kn', c') \<in> set (m_callers ?ex1) \<and> snd kn' = sortingOrderFunc c' s"
    if "kn' \<in> set rest" for kn'
  proof -
    from Cons.prems(2)[of kn'] that obtain c'
      where "(fst kn', c') \<in> set (m_callers ex)" "snd kn' = sortingOrderFunc c' s" by auto
    with other[OF that] cs show ?thesis by auto
  qed
  have p3: "distinct (map (\<lambda>kn. key_id (fst kn)) rest)" using Cons.prems(3) by simp
  have p4: "sortingOrder (fst kc) = sortingOrderFunc (snd kc) s \<or> fst kc \<in> fst ` set rest"
    if "kc \<in> set (m_callers ?ex1)" for kc
  proof (cases "kc = (?new, c)")
    case True
    with n show ?thesis by simp
  next
    case False
    with that cs have in_xs: "kc \<in> set (m_callers ex)" and ne: "kc \<noteq> (oldKey, c)" by auto
    from only[OF in_xs] ne have "fst kc \<noteq> oldKey" by auto
    with Cons.prems(4)[OF in_xs] kn show ?thesis by auto
  qed
  from Cons.IH[OF ok1 p2 p3 p4] obtain ex'
    where r: "reinsert_changed rest ?ex1 = (None, ex')" and ok': "executor_ok ex'"
      and nx: "m_nextID ex' = m_nextID ?ex1" and rg: "registered ex' = registered ?ex1"
      and so: "\<forall>kc \<in> set (m_callers ex'). sortingOrder (fst kc) = sortingOrderFunc (snd kc) s"
    by blast
  have "registered ?ex1 = registered ex"
  proof -
    let ?F = "\<lambda>kc :: CallerKey \<times> 's Caller. (key_id (fst kc), snd kc)"
    let ?S = "set (m_callers ex) - {(oldKey, c)}"
    have "?F ` set cs = insert (?F (?new, c)) (?F ` ?S)"
      unfolding cs by (rule image_insert)
    then have e1: "?F ` set cs = insert (key_id oldKey, c) (?F ` ?S)"
      by (simp only: fst_conv snd_conv CallerKey.simps)
    have "set (m_callers ex) = insert (oldKey, c) ?S" using c by blast
    then have "?F ` set (m_callers ex) = ?F ` insert (oldKey, c) ?S" by (rule arg_cong)
    also have "\<dots> = insert (?F (oldKey, c)) (?F ` ?S)" by (rule image_insert)
    finally have e2: "?F ` set (m_callers ex) = insert (key_id oldKey, c) (?F ` ?S)"
      by (simp only: fst_conv snd_conv)
    from e1 e2 have "?F ` set cs = ?F ` set (m_callers ex)" by (rule trans[OF _ sym])
    then show ?thesis by (simp add: registered_def)
  qed
  with rg have rg': "registered ex' = registered ex" by simp
  have "reinsert_changed (kn # rest) ex = (None, ex')"
    using kn f i r by simp
  with ok' nx rg' so show ?case by auto
qed

lemma refreshSortingOrder_ok:
  fixes ex :: "'s OrderedExecutor"
  assumes ok: "executor_ok ex"
  shows "\<exists>ex'. refreshSortingOrder ex s = (None, ex') \<and> executor_ok ex'
           \<and> m_nextID ex' = m_nextID ex \<and> registered ex' = registered ex
           \<and> (\<forall>kc \<in> set (m_callers ex').
                 sortingOrder (fst kc) = sortingOrderFunc (snd kc) s)"
  unfolding refreshSortingOrder_def
proof (rule reinsert_changed_ok[OF ok])
  let ?work = "changed_sorting_orders ex s"
  show "\<exists>c. (fst kn, c) \<in> set (m_callers ex) \<and> snd kn = sortingOrderFunc c s"
    if "kn \<in> set ?work" for kn
    using that by (auto simp: changed_sorting_orders_def)
  have "map (\<lambda>kn. key_id (fst kn)) ?work =
          map (\<lambda>kc. key_id (fst kc))
            (filter (\<lambda>kc. sortingOrderFunc (snd kc) s \<noteq> sortingOrder (fst kc)) (m_callers ex))"
    by (simp add: changed_sorting_orders_def comp_def)
  then show "distinct (map (\<lambda>kn. key_id (fst kn)) ?work)"
    using executor_okD(2)[OF ok] by (simp add: distinct_map_filter)
  show "sortingOrder (fst kc) = sortingOrderFunc (snd kc) s \<or> fst kc \<in> fst ` set ?work"
    if "kc \<in> set (m_callers ex)" for kc
    using that by (force simp: changed_sorting_orders_def)
qed

lemma executor_ok_new: "executor_ok new_OrderedExecutor"
  by (simp add: executor_ok_def new_OrderedExecutor_def)

lemma OrderedExecutor_add_ok:
  fixes ex :: "'s OrderedExecutor"
  assumes ok: "executor_ok ex"
  shows "\<exists>ex'. OrderedExecutor_add f g ex s = (Inr (m_nextID ex), ex') \<and> executor_ok ex'
           \<and> m_nextID ex' = m_nextID ex + 1
           \<and> registered ex' = insert (m_nextID ex, \<lparr>func = f, sortingOrderFunc = g\<rparr>) (registered ex)"
proof -
  let ?k = "\<lparr>key_id = m_nextID ex, sortingOrder = g s\<rparr>"
  let ?c = "\<lparr>func = f, sortingOrderFunc = g\<rparr>"
  note d = executor_okD[OF ok]
  have nin: "?k \<notin> fst ` set (m_callers ex)"
  proof
    assume "?k \<in> fst ` set (m_callers ex)"
    then obtain kc where "kc \<in> set (m_callers ex)" "fst kc = ?k" by auto
    with d(3)[of kc] show False by simp
  qed
  obtain cs b where i: "callers_insert ?k ?c (m_callers ex) = (cs, b)"
    by (cases "callers_insert ?k ?c (m_callers ex)")
  from callers_insert_new[OF d(1) nin, of ?c] i
  have b: "b" and cs: "set cs = insert (?k, ?c) (set (m_callers ex))"
    and scs: "sorted_wrt CallerKey_less (map fst cs)" by simp_all
  have none: "m_callerKeyByID ex (m_nextID ex) = None"
  proof (rule ccontr)
    assume "m_callerKeyByID ex (m_nextID ex) \<noteq> None"
    then have "m_nextID ex \<in> dom (m_callerKeyByID ex)" by auto
    with d(5) obtain kc where "kc \<in> set (m_callers ex)" "key_id (fst kc) = m_nextID ex" by auto
    with d(3)[of kc] show False by simp
  qed
  let ?ex' = "ex\<lparr>m_callers := cs,
                 m_callerKeyByID := (m_callerKeyByID ex)(m_nextID ex \<mapsto> ?k),
                 m_nextID := m_nextID ex + 1\<rparr>"
  have eq: "OrderedExecutor_add f g ex s = (Inr (m_nextID ex), ?ex')"
    using i b none by (simp add: OrderedExecutor_add_def)
  have "distinct cs" using sorted_callers_distinct[OF scs] by (simp add: distinct_map)
  moreover have "inj_on (\<lambda>kc. key_id (fst kc)) (set cs)"
  proof (rule inj_onI)
    fix a b assume a: "a \<in> set cs" and b: "b \<in> set cs"
      and e: "key_id (fst a) = key_id (fst b)"
    have old: "key_id (fst x) < m_nextID ex" if "x \<in> set (m_callers ex)" for x
      using d(3)[OF that] .
    show "a = b"
    proof (cases "a = (?k, ?c)")
      case True
      show ?thesis
      proof (rule ccontr)
        assume "a \<noteq> b"
        with b cs True have "b \<in> set (m_callers ex)" by auto
        from old[OF this] e True show False by simp
      qed
    next
      case False
      with a cs have ia: "a \<in> set (m_callers ex)" by auto
      have "b \<noteq> (?k, ?c)" using old[OF ia] e by auto
      with b cs have "b \<in> set (m_callers ex)" by auto
      from same_id_same_entry[OF d(2) ia this e] show ?thesis .
    qed
  qed
  ultimately have dist: "distinct (map (\<lambda>kc. key_id (fst kc)) cs)" by (simp add: distinct_map)
  have "executor_ok ?ex'"
  proof (rule executor_okI)
    show "sorted_wrt CallerKey_less (map fst (m_callers ?ex'))" using scs by simp
    show "distinct (map (\<lambda>kc. key_id (fst kc)) (m_callers ?ex'))" using dist by simp
    show "key_id (fst kc) < m_nextID ?ex'" if "kc \<in> set (m_callers ?ex')" for kc
    proof (cases "kc = (?k, ?c)")
      case True
      then show ?thesis by simp
    next
      case False
      with that cs have "kc \<in> set (m_callers ex)" by auto
      from d(3)[OF this] show ?thesis by simp
    qed
    show "m_callerKeyByID ?ex' (key_id (fst kc)) = Some (fst kc)"
      if "kc \<in> set (m_callers ?ex')" for kc
    proof (cases "kc = (?k, ?c)")
      case True
      then show ?thesis by simp
    next
      case False
      with that cs have in_xs: "kc \<in> set (m_callers ex)" by auto
      from d(3)[OF in_xs] d(4)[OF in_xs] show ?thesis by simp
    qed
    have "dom (m_callerKeyByID ?ex') = insert (m_nextID ex) (dom (m_callerKeyByID ex))"
      by simp
    moreover have "(\<lambda>kc. key_id (fst kc)) ` set cs
        = insert (m_nextID ex) ((\<lambda>kc. key_id (fst kc)) ` set (m_callers ex))"
      using cs by simp
    ultimately show
      "dom (m_callerKeyByID ?ex') \<subseteq> (\<lambda>kc. key_id (fst kc)) ` set (m_callers ?ex')"
      using d(5) by auto
  qed
  moreover have "registered ?ex' = insert (m_nextID ex, ?c) (registered ex)"
    using cs by (simp add: registered_def)
  ultimately show ?thesis using eq by auto
qed

lemma OrderedExecutor_remove_ok:
  fixes ex :: "'s OrderedExecutor"
  assumes ok: "executor_ok ex"
  shows "fst (OrderedExecutor_remove i ex) = None
       \<and> executor_ok (snd (OrderedExecutor_remove i ex))
       \<and> registered (snd (OrderedExecutor_remove i ex)) = {p \<in> registered ex. fst p \<noteq> i}"
proof (cases "m_callerKeyByID ex i")
  case None
  note d = executor_okD[OF ok]
  have "fst p \<noteq> i" if "p \<in> registered ex" for p
  proof
    assume "fst p = i"
    with that obtain kc where "kc \<in> set (m_callers ex)" "key_id (fst kc) = i"
      by (auto simp: registered_def)
    with d(4)[of kc] None show False by simp
  qed
  then have "{p \<in> registered ex. fst p \<noteq> i} = registered ex" by auto
  with None ok show ?thesis by (simp add: OrderedExecutor_remove_def findByID_def)
next
  case (Some k)
  note d = executor_okD[OF ok]
  from Some d(5) obtain kc where kc: "kc \<in> set (m_callers ex)" "key_id (fst kc) = i" by auto
  with d(4)[OF kc(1)] Some have k: "fst kc = k" by simp
  obtain c where c: "kc = (k, c)" using k by (cases kc) auto
  have dk: "distinct (map fst (m_callers ex))" using d(1) by (rule sorted_callers_distinct)
  have f: "callers_find k (m_callers ex) = Some c"
    using dk kc(1) c by (simp add: callers_find_map_of)
  let ?cs = "callers_erase k (m_callers ex)"
  let ?ex' = "ex\<lparr>m_callers := ?cs, m_callerKeyByID := (m_callerKeyByID ex)(i := None)\<rparr>"
  have eq: "OrderedExecutor_remove i ex = (None, ?ex')"
    using Some f by (simp add: OrderedExecutor_remove_def findByID_def)
  have only: "x = kc" if "x \<in> set (m_callers ex)" "key_id (fst x) = i" for x
    using same_id_same_entry[OF d(2) that(1) kc(1)] that(2) kc(2) by simp
  have cs: "set ?cs = set (m_callers ex) - {kc}"
  proof -
    have "x \<in> set (m_callers ex) \<and> x \<noteq> kc" if "x \<in> set ?cs" for x
      using that c by (auto simp: callers_erase_filter)
    moreover have "x \<in> set ?cs" if "x \<in> set (m_callers ex)" "x \<noteq> kc" for x
    proof -
      have "fst x \<noteq> k"
      proof
        assume "fst x = k"
        with k kc(2) have "key_id (fst x) = i" by simp
        from only[OF that(1) this] that(2) show False by simp
      qed
      with that(1) show ?thesis by (simp add: callers_erase_filter)
    qed
    ultimately show ?thesis by blast
  qed
  have "executor_ok ?ex'"
  proof (rule executor_okI)
    show "sorted_wrt CallerKey_less (map fst (m_callers ?ex'))"
      using sorted_filter_callers[OF d(1)] by (simp add: callers_erase_filter)
    show "distinct (map (\<lambda>kc. key_id (fst kc)) (m_callers ?ex'))"
      using d(2) by (simp add: callers_erase_filter distinct_map_filter)
    show "key_id (fst x) < m_nextID ?ex'" if "x \<in> set (m_callers ?ex')" for x
      using that cs d(3)[of x] by simp
    show "m_callerKeyByID ?ex' (key_id (fst x)) = Some (fst x)"
      if "x \<in> set (m_callers ?ex')" for x
    proof -
      from that cs have in_xs: "x \<in> set (m_callers ex)" and ne: "x \<noteq> kc" by auto
      from only[OF in_xs] ne have "key_id (fst x) \<noteq> i" by auto
      with d(4)[OF in_xs] show ?thesis by simp
    qed
    show "dom (m_callerKeyByID ?ex') \<subseteq> (\<lambda>kc. key_id (fst kc)) ` set (m_callers ?ex')"
    proof
      fix j assume "j \<in> dom (m_callerKeyByID ?ex')"
      then have j: "j \<noteq> i" "j \<in> dom (m_callerKeyByID ex)" by (auto split: if_splits)
      with d(5) obtain x where x: "x \<in> set (m_callers ex)" "key_id (fst x) = j" by auto
      with j(1) kc(2) have "x \<noteq> kc" by auto
      with x cs show "j \<in> (\<lambda>kc. key_id (fst kc)) ` set (m_callers ?ex')" by force
    qed
  qed
  moreover have "registered ?ex' = {p \<in> registered ex. fst p \<noteq> i}"
  proof -
    have "p \<in> {p \<in> registered ex. fst p \<noteq> i}" if "p \<in> registered ?ex'" for p
      using that cs kc(2) only by (force simp: registered_def)
    moreover have "p \<in> registered ?ex'" if "p \<in> {p \<in> registered ex. fst p \<noteq> i}" for p
    proof -
      from that obtain x where x: "x \<in> set (m_callers ex)" "p = (key_id (fst x), snd x)"
        "key_id (fst x) \<noteq> i" by (auto simp: registered_def)
      with kc(2) have "x \<noteq> kc" by auto
      with x cs show ?thesis by (force simp: registered_def)
    qed
    ultimately show ?thesis by blast
  qed
  ultimately show ?thesis using eq by simp
qed

text \<open>
  Claim C7. For an executor whose callbacks were registered by \<open>add\<close> (executors built from
  the empty one by \<open>add\<close>, \<open>remove\<close> and \<open>call\<close> satisfy \<open>executor_ok\<close>, and those three never
  throw on such an executor), one \<open>call\<close> in the state \<open>s\<close>
  \<^item> does not throw and keeps exactly the registered callbacks, each under its identifier;
  \<^item> leaves every callback keyed by the sorting order that its function gives in \<open>s\<close>, the
    state at the start of the call, whatever the callbacks do to the state while they run;
  \<^item> then has called the callbacks one after the other in the order of the re-keyed map,
    which ascends by \<open>CallerKey_less\<close>: by sorting order, and by identifier where the sorting
    orders are equal.
  A sorting order that changes during a cycle is therefore seen by the next \<open>call\<close> only.
\<close>

theorem call_in_sorting_order:
  fixes ex :: "'s OrderedExecutor"
  shows
  "(executor_ok ex \<longrightarrow>
      (\<exists>ex'. OrderedExecutor_call ex s = (None, ex', call_all (m_callers ex') s)
         \<and> executor_ok ex'
         \<and> registered ex' = registered ex
         \<and> sorted_wrt CallerKey_less (map fst (m_callers ex'))
         \<and> distinct (map (\<lambda>kc. key_id (fst kc)) (m_callers ex'))
         \<and> list_all (\<lambda>kc. sortingOrder (fst kc) = sortingOrderFunc (snd kc) s)
              (m_callers ex')))
   \<and> call_all [] s = s
   \<and> call_all (kc # cs) s = call_all cs (func (snd kc) s)
   \<and> (CallerKey_less a b \<longleftrightarrow>
        sortingOrder a < sortingOrder b
        \<or> (sortingOrder a = sortingOrder b \<and> key_id a < key_id b))
   \<and> executor_ok (new_OrderedExecutor :: 's OrderedExecutor)
   \<and> (executor_ok ex \<longrightarrow>
        (\<exists>ex'. OrderedExecutor_add f g ex s = (Inr (m_nextID ex), ex')
           \<and> executor_ok ex' \<and> m_nextID ex' = m_nextID ex + 1
           \<and> registered ex'
               = insert (m_nextID ex, \<lparr>func = f, sortingOrderFunc = g\<rparr>) (registered ex)))
   \<and> (executor_ok ex \<longrightarrow>
        fst (OrderedExecutor_remove i ex) = None
        \<and> executor_ok (snd (OrderedExecutor_remove i ex))
        \<and> registered (snd (OrderedExecutor_remove i ex)) = {p \<in> registered ex. fst p \<noteq> i})"
proof (intro conjI impI)
  assume ok: "executor_ok ex"
  from refreshSortingOrder_ok[OF ok, of s] obtain ex'
    where r: "refreshSortingOrder ex s = (None, ex')" and ok': "executor_ok ex'"
      and rg: "registered ex' = registered ex"
      and so: "\<forall>kc \<in> set (m_callers ex'). sortingOrder (fst kc) = sortingOrderFunc (snd kc) s"
    by blast
  have "OrderedExecutor_call ex s = (None, ex', call_all (m_callers ex') s)"
    using r by (simp add: OrderedExecutor_call_def)
  with ok' rg so executor_okD(1,2)[OF ok']
  show "\<exists>ex'. OrderedExecutor_call ex s = (None, ex', call_all (m_callers ex') s)
         \<and> executor_ok ex'
         \<and> registered ex' = registered ex
         \<and> sorted_wrt CallerKey_less (map fst (m_callers ex'))
         \<and> distinct (map (\<lambda>kc. key_id (fst kc)) (m_callers ex'))
         \<and> list_all (\<lambda>kc. sortingOrder (fst kc) = sortingOrderFunc (snd kc) s)
              (m_callers ex')"
    by (auto simp: list_all_iff)
  show "\<exists>ex'. OrderedExecutor_add f g ex s = (Inr (m_nextID ex), ex')
           \<and> executor_ok ex' \<and> m_nextID ex' = m_nextID ex + 1
           \<and> registered ex'
               = insert (m_nextID ex, \<lparr>func = f, sortingOrderFunc = g\<rparr>) (registered ex)"
    using ok by (rule OrderedExecutor_add_ok)
  from OrderedExecutor_remove_ok[OF ok, of i]
  show "fst (OrderedExecutor_remove i ex) = None"
    and "executor_ok (snd (OrderedExecutor_remove i ex))"
    and "registered (snd (OrderedExecutor_remove i ex)) = {p \<in> registered ex. fst p \<noteq> i}"
    by blast+
next
  show "call_all [] s = s" by (simp add: call_all_def)
  show "call_all (kc # cs) s = call_all cs (func (snd kc) s)" by (simp add: call_all_def)
  show "CallerKey_less a b \<longleftrightarrow>
        sortingOrder a < sortingOrder b
        \<or> (sortingOrder a = sortingOrder b \<and> key_id a < key_id b)"
    by (auto simp: CallerKey_less_def)
  show "executor_ok (new_OrderedExecutor :: 's OrderedExecutor)" by (rule executor_ok_new)
qed

lemmas executor_eval =
  OrderedExecutor_call_def refreshSortingOrder_def changed_sorting_orders_def
  callers_erase_def CallerKey_equiv_def CallerKey_less_def call_all_def
  OrderedExecutor_add_def new_OrderedExecutor_def sample_executor_def sample_caller_def

text \<open>
  Callbacks added with the sorting orders 10, 5, 5 get the identifiers 1, 2, 3 and are
  called in the order 2, 3, 1. Callback 2 sets the sorting order of callback 1 to 0 while
  the cycle runs: callback 1 is still called last in that cycle, and first in the next.
\<close>

theorem call_in_sorting_order_witness:
  "executor_ok sample_executor
   \<and> map fst (m_callers (snd (OrderedExecutor_add (func (sample_caller 3))
        (sortingOrderFunc (sample_caller 3))
        (snd (OrderedExecutor_add (func (sample_caller 2)) (sortingOrderFunc (sample_caller 2))
          (snd (OrderedExecutor_add (func (sample_caller 1)) (sortingOrderFunc (sample_caller 1))
             new_OrderedExecutor ([], 10))) ([], 10))) ([], 10))))
     = map fst (m_callers sample_executor)
   \<and> (case OrderedExecutor_call sample_executor ([], 10) of
        (thrown, ex', st) \<Rightarrow> (thrown, map fst (m_callers ex'), st))
     = (None,
        [\<lparr>key_id = 2, sortingOrder = 5\<rparr>, \<lparr>key_id = 3, sortingOrder = 5\<rparr>,
         \<lparr>key_id = 1, sortingOrder = 10\<rparr>],
        ([2, 3, 1], 0))
   \<and> (case OrderedExecutor_call sample_executor ([2, 3, 1], 0) of
        (thrown, ex', st) \<Rightarrow> (thrown, map fst (m_callers ex'), st))
     = (None,
        [\<lparr>key_id = 1, sortingOrder = 0\<rparr>, \<lparr>key_id = 2, sortingOrder = 5\<rparr>,
         \<lparr>key_id = 3, sortingOrder = 5\<rparr>],
        ([2, 3, 1, 1, 2, 3], 0))"
  using call_in_sorting_order[where ex = sample_executor and s = "([], 10)"
          and kc = "(\<lparr>key_id = 2, sortingOrder = 5\<rparr>, sample_caller 2)" and cs = "[]"
          and a = "\<lparr>key_id = 2, sortingOrder = 5\<rparr>" and b = "\<lparr>key_id = 3, sortingOrder = 5\<rparr>"
          and f = "func (sample_caller 3)" and g = "sortingOrderFunc (sample_caller 3)" and i = 1]
  by (simp add: executor_eval executor_ok_def)

end
